theory Spec2Isabelle
  imports Main
begin

section \<open>Python strings\<close>

text \<open>
  A Python \<open>str\<close> is a sequence of Unicode code points and \<open>len\<close> counts code points, so a
  string is modelled as a list of code points (natural numbers). \<open>str\<close> turns an ASCII
  literal into such a list.
\<close>

type_synonym pystr = "nat list"

definition str :: "string \<Rightarrow> pystr" where
  "str s = map of_char s"

text \<open>\<open>str.isspace\<close> on one character: the code points CPython treats as whitespace.\<close>

definition isspace :: "nat \<Rightarrow> bool" where
  "isspace c \<longleftrightarrow>
     (9 \<le> c \<and> c \<le> 13) \<or> (28 \<le> c \<and> c \<le> 32) \<or> c = 133 \<or> c = 160 \<or> c = 5760 \<or>
     (8192 \<le> c \<and> c \<le> 8202) \<or> c = 8232 \<or> c = 8233 \<or> c = 8239 \<or> c = 8287 \<or> c = 12288"

text \<open>\<open>s.strip()\<close>: leading and trailing whitespace removed.\<close>

definition strip :: "pystr \<Rightarrow> pystr" where
  "strip s = rev (dropWhile isspace (rev (dropWhile isspace s)))"

text \<open>
  \<open>xs[i:j]\<close> for Python integers: a negative index counts from the end, and both indices
  are clamped to the sequence.
\<close>

definition slice :: "'a list \<Rightarrow> int \<Rightarrow> int \<Rightarrow> 'a list" where
  "slice xs i j =
     (let n = int (length xs);
          lo = (if i < 0 then max 0 (i + n) else min i n);
          hi = (if j < 0 then max 0 (j + n) else min j n)
      in drop (nat lo) (take (nat hi) xs))"

text \<open>\<open>s.rfind(c)\<close> for a one-character needle: the highest index of \<open>c\<close>, or \<open>-1\<close>.\<close>

fun rfind :: "pystr \<Rightarrow> nat \<Rightarrow> int" where
  "rfind [] c = - 1"
| "rfind (x # xs) c =
     (let r = rfind xs c in if 0 \<le> r then r + 1 else if x = c then 0 else - 1)"

definition startswith :: "pystr \<Rightarrow> pystr \<Rightarrow> bool" where
  "startswith s p \<longleftrightarrow> take (length p) s = p"

text \<open>\<open>sub in s\<close>.\<close>

fun contains :: "pystr \<Rightarrow> pystr \<Rightarrow> bool" where
  "contains [] sub \<longleftrightarrow> sub = []"
| "contains (x # xs) sub \<longleftrightarrow> startswith (x # xs) sub \<or> contains xs sub"

text \<open>
  \<open>s.split(sep)\<close>: the text is scanned from the left and cut at every occurrence of the
  separator, occurrences not overlapping; \<open>cur\<close> is the piece being read. Both call sites
  pass a non-empty literal (Python raises \<open>ValueError\<close> on an empty separator, which no
  call here can reach).
\<close>

function split_from :: "pystr \<Rightarrow> pystr \<Rightarrow> pystr \<Rightarrow> pystr list" where
  "split_from sep cur s =
     (if s = [] then [cur]
      else if sep \<noteq> [] \<and> startswith s sep then cur # split_from sep [] (drop (length sep) s)
      else split_from sep (cur @ [hd s]) (tl s))"
  by pat_completeness auto
termination
  by (relation "measure (\<lambda>(sep, cur, s). length s)") auto

declare split_from.simps [simp del]

definition str_split :: "pystr \<Rightarrow> pystr \<Rightarrow> pystr list" where
  "str_split s sep = split_from sep [] s"

text \<open>
  \<open>s.replace(old, new)\<close>: every occurrence of \<open>old\<close>, scanning from the left, occurrences
  not overlapping. The call sites pass the non-empty literals \<open>"FILE:"\<close>, \<open>"/"\<close> and \<open>"."\<close>.
\<close>

function replace :: "pystr \<Rightarrow> pystr \<Rightarrow> pystr \<Rightarrow> pystr" where
  "replace s old new =
     (if s = [] then []
      else if old \<noteq> [] \<and> startswith s old then new @ replace (drop (length old) s) old new
      else hd s # replace (tl s) old new)"
  by pat_completeness auto
termination
  by (relation "measure (\<lambda>(s, old, new). length s)") auto

declare replace.simps [simp del]

text \<open>\<open>sep.join(xs)\<close>.\<close>

fun join :: "pystr \<Rightarrow> pystr list \<Rightarrow> pystr" where
  "join sep [] = []"
| "join sep [x] = x"
| "join sep (x # y # ys) = x @ sep @ join sep (y # ys)"

text \<open>\<open>str(n)\<close> for a non-negative integer, and for any integer.\<close>

fun str_of_nat :: "nat \<Rightarrow> pystr" where
  "str_of_nat n = (if n < 10 then [48 + n] else str_of_nat (n div 10) @ [48 + n mod 10])"

declare str_of_nat.simps [simp del]

definition str_of_int :: "int \<Rightarrow> pystr" where
  "str_of_int i = (if i < 0 then 45 # str_of_nat (nat (- i)) else str_of_nat (nat i))"

text \<open>\<open>os.path.basename\<close> (POSIX): what follows the last \<open>/\<close>.\<close>

definition basename :: "pystr \<Rightarrow> pystr" where
  "basename p = drop (nat (rfind p 47 + 1)) p"


section \<open>The chunker\<close>

text \<open>
  One pass through the body of the \<open>while\<close> loop of \<open>_split_into_chunks\<close>: the chunk that is
  appended (already stripped) and the next value of \<open>start\<close>.
\<close>

definition chunk_step :: "pystr \<Rightarrow> int \<Rightarrow> int \<Rightarrow> int \<Rightarrow> pystr \<times> int" where
  "chunk_step text chunk_size overlap start =
     (let chunk_end = start + chunk_size;
          chunk = slice text start chunk_end
      in if chunk_end < int (length text)
         then (let last_newline = rfind chunk 10
               in if last_newline > chunk_size div 2
                  then (strip (slice chunk 0 last_newline), start + last_newline - overlap)
                  else (strip chunk, chunk_end - overlap))
         else (strip chunk, chunk_end - overlap))"

text \<open>
  The loop itself. Nothing in the source bounds the number of iterations, so the loop is a
  partial function: \<open>None\<close> is a run that never leaves the loop.
\<close>

partial_function (option) split_loop ::
  "pystr \<Rightarrow> int \<Rightarrow> int \<Rightarrow> int \<Rightarrow> pystr list \<Rightarrow> pystr list option" where
  "split_loop text chunk_size overlap start chunks =
     (if start < int (length text)
      then (case chunk_step text chunk_size overlap start of
              (chunk, next_start) \<Rightarrow>
                split_loop text chunk_size overlap next_start (chunks @ [chunk]))
      else Some chunks)"

declare split_loop.simps [code]

text \<open>\<open>_split_into_chunks\<close>: the loop from \<open>start = 0\<close>, then the empty chunks dropped.\<close>

definition split_into_chunks :: "pystr \<Rightarrow> int \<Rightarrow> int \<Rightarrow> pystr list option" where
  "split_into_chunks text chunk_size overlap =
     map_option (filter (\<lambda>c. c \<noteq> [])) (split_loop text chunk_size overlap 0 [])"

text \<open>
  The position of the last newline of a string, stated without \<open>rfind\<close>: a newline stands at
  \<open>k\<close> and none after it.
\<close>

definition last_newline_at :: "pystr \<Rightarrow> nat \<Rightarrow> bool" where
  "last_newline_at s k \<longleftrightarrow> k < length s \<and> s ! k = 10 \<and> 10 \<notin> set (drop (Suc k) s)"


section \<open>Ingestion\<close>

text \<open>
  A metadata value is a Python \<open>str\<close> or \<open>int\<close>; a metadata dictionary keeps its insertion
  order. The three parallel lists the ingestion builds, and every slice of them handed to
  the store, are a \<open>batch\<close>.
\<close>

datatype meta_value = MStr pystr | MInt int

type_synonym metadata = "(pystr \<times> meta_value) list"

record batch =
  documents :: "pystr list"
  metadatas :: "metadata list"
  ids :: "pystr list"

datatype error = FileError | StoreError | QueryError | ModelError | IndexError

text \<open>
  The vector store is an external collaborator: its \<open>add\<close> takes the store and a batch and
  either raises or returns the new store.
\<close>

type_synonym 's add_fn = "'s \<Rightarrow> batch \<Rightarrow> error + 's"

definition empty_batch :: batch where
  "empty_batch = \<lparr>documents = [], metadatas = [], ids = []\<rparr>"

definition separator :: pystr where
  "separator = str ''================''"

text \<open>
  The head of the loop over the blocks of a bundle (up to \<open>file_content\<close>): \<open>None\<close> is
  \<open>continue\<close>, otherwise the name and the text of the logical document.
\<close>

definition block_entry :: "nat \<Rightarrow> pystr \<Rightarrow> (pystr \<times> pystr) option" where
  "block_entry file_idx file_block =
     (if strip file_block = [] then None
      else let lines = str_split (strip file_block) [10]
           in if length lines < 2 then None
              else let file_header = strip (hd lines);
                       file_name =
                         (if startswith file_header (str ''FILE:'')
                          then strip (replace file_header (str ''FILE:'') [])
                          else str ''section_'' @ str_of_nat file_idx)
                   in Some (file_name, join [10] (tl lines)))"

text \<open>The body of the loop over the chunks of one logical document of a bundle.\<close>

definition bundle_chunk :: "pystr \<Rightarrow> pystr \<Rightarrow> nat \<Rightarrow> batch \<Rightarrow> nat \<times> pystr \<Rightarrow> batch" where
  "bundle_chunk file_name source_path total_chunks acc ic =
     (case ic of (i, chunk) \<Rightarrow>
        \<lparr>documents = documents acc @ [chunk],
         metadatas = metadatas acc @
           [[(str ''source'', MStr file_name),
             (str ''original_file'', MStr (basename source_path)),
             (str ''chunk_id'', MInt (int i)),
             (str ''total_chunks'', MInt (int total_chunks))]],
         ids = ids acc @ [replace file_name (str ''/'') (str ''_'') @ str ''_'' @ str_of_nat i]\<rparr>)"

text \<open>The loop over the blocks; a chunker that does not return makes the whole loop not return.\<close>

fun awesome_blocks :: "pystr \<Rightarrow> (nat \<times> pystr) list \<Rightarrow> batch \<Rightarrow> batch option" where
  "awesome_blocks source_path [] acc = Some acc"
| "awesome_blocks source_path ((file_idx, file_block) # rest) acc =
     (case block_entry file_idx file_block of
        None \<Rightarrow> awesome_blocks source_path rest acc
      | Some (file_name, file_content) \<Rightarrow>
          (case split_into_chunks file_content 3000 300 of
             None \<Rightarrow> None
           | Some chunks \<Rightarrow>
               awesome_blocks source_path rest
                 (foldl (bundle_chunk file_name source_path (length chunks)) acc
                    (enumerate 0 chunks))))"

text \<open>\<open>range(0, n, step)\<close> for a positive step.\<close>

definition py_range :: "nat \<Rightarrow> nat \<Rightarrow> nat list" where
  "py_range n step = map (\<lambda>k. k * step) [0..<(n + step - 1) div step]"

text \<open>The batch loop of the bundle path: one \<open>add\<close> per start index, the first failure raised.\<close>

fun submit_batches :: "'s add_fn \<Rightarrow> batch \<Rightarrow> nat list \<Rightarrow> 's \<Rightarrow> error + 's" where
  "submit_batches add all [] s = Inr s"
| "submit_batches add all (i # rest) s =
     (case add s \<lparr>documents = slice (documents all) (int i) (int i + 100),
                  metadatas = slice (metadatas all) (int i) (int i + 100),
                  ids = slice (ids all) (int i) (int i + 100)\<rparr> of
        Inl e \<Rightarrow> Inl e
      | Inr s' \<Rightarrow> submit_batches add all rest s')"

text \<open>
  \<open>_ingest_awesome_format\<close>. The result is \<open>None\<close> when the call does not return, otherwise
  the exception raised or the count returned with the store as the call left it.
\<close>

definition ingest_awesome_format ::
  "'s add_fn \<Rightarrow> 's \<Rightarrow> pystr \<Rightarrow> pystr \<Rightarrow> (error + nat \<times> 's) option" where
  "ingest_awesome_format add s content source_path =
     (case awesome_blocks source_path (enumerate 0 (str_split content separator)) empty_batch of
        None \<Rightarrow> None
      | Some all \<Rightarrow>
          Some (if documents all \<noteq> []
                then (case submit_batches add all (py_range (length (documents all)) 100) s of
                        Inl e \<Rightarrow> Inl e
                      | Inr s' \<Rightarrow> Inr (length (documents all), s'))
                else Inr (length (documents all), s)))"

text \<open>The body of the loop over the chunks of a single file.\<close>

definition single_chunk :: "pystr \<Rightarrow> nat \<Rightarrow> batch \<Rightarrow> nat \<times> pystr \<Rightarrow> batch" where
  "single_chunk file_path total_chunks acc ic =
     (case ic of (i, chunk) \<Rightarrow>
        \<lparr>documents = documents acc @ [chunk],
         metadatas = metadatas acc @
           [[(str ''source'', MStr (basename file_path)),
             (str ''chunk_id'', MInt (int i)),
             (str ''total_chunks'', MInt (int total_chunks))]],
         ids = ids acc @
           [replace (basename file_path) (str ''.'') (str ''_'') @ str ''_'' @ str_of_nat i]\<rparr>)"

text \<open>\<open>_ingest_single_file\<close>: every chunk goes to the store in one \<open>add\<close>.\<close>

definition ingest_single_file ::
  "'s add_fn \<Rightarrow> 's \<Rightarrow> pystr \<Rightarrow> pystr \<Rightarrow> (error + nat \<times> 's) option" where
  "ingest_single_file add s content file_path =
     (case split_into_chunks content 3000 300 of
        None \<Rightarrow> None
      | Some chunks \<Rightarrow>
          (let all = foldl (single_chunk file_path (length chunks)) empty_batch (enumerate 0 chunks)
           in Some (if documents all \<noteq> []
                    then (case add s all of
                            Inl e \<Rightarrow> Inl e
                          | Inr s' \<Rightarrow> Inr (length chunks, s'))
                    else Inr (length chunks, s))))"

text \<open>
  \<open>ingest_file\<close>: the file system is a map from paths to contents; a path that cannot be
  read raises.
\<close>

definition ingest_file ::
  "'s add_fn \<Rightarrow> 's \<Rightarrow> (pystr \<rightharpoonup> pystr) \<Rightarrow> pystr \<Rightarrow> (error + nat \<times> 's) option" where
  "ingest_file add s fs file_path =
     (case fs file_path of
        None \<Rightarrow> Some (Inl FileError)
      | Some content \<Rightarrow>
          if contains content separator
          then ingest_awesome_format add s content file_path
          else ingest_single_file add s content file_path)"

text \<open>
  A store that never raises and keeps every batch it is handed, in order: what the claims
  about submissions are stated on.
\<close>

definition record_add :: "batch list add_fn" where
  "record_add log b = Inr (log @ [b])"

text \<open>
  Views of the ingestion used to state its properties: the chunks of a text under the
  pipeline's parameters, the logical documents of a bundle in block order, and the
  identifiers of the chunks of one document.
\<close>

definition pipeline_chunks :: "pystr \<Rightarrow> pystr list" where
  "pipeline_chunks text = (case split_into_chunks text 3000 300 of None \<Rightarrow> [] | Some chunks \<Rightarrow> chunks)"

definition bundle_documents :: "pystr \<Rightarrow> (pystr \<times> pystr) list" where
  "bundle_documents content =
     List.map_filter (\<lambda>(file_idx, file_block). block_entry file_idx file_block)
       (enumerate 0 (str_split content separator))"

definition kept_block :: "pystr \<Rightarrow> bool" where
  "kept_block file_block \<longleftrightarrow>
     strip file_block \<noteq> [] \<and> 2 \<le> length (str_split (strip file_block) [10])"

text \<open>The stripped first line of a block and the lines after it, joined again.\<close>

definition block_header :: "pystr \<Rightarrow> pystr" where
  "block_header file_block = strip (hd (str_split (strip file_block) [10]))"

definition block_text :: "pystr \<Rightarrow> pystr" where
  "block_text file_block = join [10] (tl (str_split (strip file_block) [10]))"

definition chunk_ids :: "pystr \<Rightarrow> nat \<Rightarrow> pystr list" where
  "chunk_ids stem n = map (\<lambda>i. stem @ str ''_'' @ str_of_nat i) [0..<n]"

definition document_ids :: "pystr \<times> pystr \<Rightarrow> pystr list" where
  "document_ids d =
     chunk_ids (replace (fst d) (str ''/'') (str ''_'')) (length (pipeline_chunks (snd d)))"

text \<open>
  The three lists a bundle ingestion has built when its loop over the blocks ends, the
  slice of them that starts at index \<open>i\<close>, the slices the batch loop hands to the store,
  and the three lists of a single-file ingestion.
\<close>

definition bundle_all :: "pystr \<Rightarrow> pystr \<Rightarrow> batch" where
  "bundle_all content source_path =
     (case awesome_blocks source_path (enumerate 0 (str_split content separator)) empty_batch of
        None \<Rightarrow> empty_batch
      | Some all \<Rightarrow> all)"

definition batch_at :: "batch \<Rightarrow> nat \<Rightarrow> batch" where
  "batch_at all i = \<lparr>documents = take 100 (drop i (documents all)),
                     metadatas = take 100 (drop i (metadatas all)),
                     ids = take 100 (drop i (ids all))\<rparr>"

definition bundle_batches :: "pystr \<Rightarrow> pystr \<Rightarrow> batch list" where
  "bundle_batches content source_path =
     map (batch_at (bundle_all content source_path))
       (py_range (length (documents (bundle_all content source_path))) 100)"

definition single_all :: "pystr \<Rightarrow> pystr \<Rightarrow> batch" where
  "single_all content file_path =
     foldl (single_chunk file_path (length (pipeline_chunks content))) empty_batch
       (enumerate 0 (pipeline_chunks content))"


text \<open>The chunks parsed from the content of a file, in order, on whichever path it takes.\<close>

definition parsed_chunks :: "pystr \<Rightarrow> pystr list" where
  "parsed_chunks raw =
     (if contains raw separator
      then concat (map (\<lambda>d. pipeline_chunks (snd d)) (bundle_documents raw))
      else pipeline_chunks raw)"

section \<open>Retrieval and answer composition\<close>

record retrieved =
  content :: pystr
  metadata :: metadata

text \<open>\<open>d.get(key, default)\<close> on a metadata dictionary, and \<open>f"{v}"\<close> of a metadata value.\<close>

definition dict_get :: "metadata \<Rightarrow> pystr \<Rightarrow> meta_value \<Rightarrow> meta_value" where
  "dict_get d k dflt = (case map_of d k of None \<Rightarrow> dflt | Some v \<Rightarrow> v)"

fun format_value :: "meta_value \<Rightarrow> pystr" where
  "format_value (MStr s) = s"
| "format_value (MInt i) = str_of_int i"

text \<open>
  The loop of \<open>search\<close> over the indices of the documents the store returned; a metadata
  list that is too short raises \<open>IndexError\<close>.
\<close>

fun pair_results :: "pystr list \<Rightarrow> metadata list \<Rightarrow> error + retrieved list" where
  "pair_results [] ms = Inr []"
| "pair_results (d # ds) [] = Inl IndexError"
| "pair_results (d # ds) (m # ms) =
     (case pair_results ds ms of
        Inl e \<Rightarrow> Inl e
      | Inr rest \<Rightarrow> Inr (\<lparr>content = d, metadata = m\<rparr> # rest))"

type_synonym query_fn = "pystr \<Rightarrow> nat \<Rightarrow> error + pystr list \<times> metadata list"

definition search :: "query_fn \<Rightarrow> pystr \<Rightarrow> nat \<Rightarrow> error + retrieved list" where
  "search query q n_results =
     (case query q n_results of
        Inl e \<Rightarrow> Inl e
      | Inr (docs, metas) \<Rightarrow> pair_results docs metas)"

definition source_name :: "retrieved \<Rightarrow> meta_value" where
  "source_name doc = dict_get (metadata doc) (str ''source'') (MStr (str ''unknown''))"

definition build_context :: "retrieved list \<Rightarrow> pystr" where
  "build_context context_docs =
     join [10, 10]
       (map (\<lambda>doc. str ''Source: '' @ format_value (source_name doc) @ [10] @ content doc)
          context_docs)"

definition build_prompt :: "pystr \<Rightarrow> pystr \<Rightarrow> pystr" where
  "build_prompt question context =
     str ''Tu es Deepy, un assistant expert en architecture logicielle et design patterns.''
     @ [10, 10] @ str ''Contexte pertinent:'' @ [10] @ context
     @ [10, 10] @ str ''Question: '' @ question
     @ [10, 10] @ str ''R'' @ [233] @ str ''ponds de mani'' @ [232] @ str ''re claire et d''
     @ [233] @ str ''taill'' @ [233]
     @ str ''e en te basant sur le contexte fourni. Si le contexte ne contient pas l''
     @ [39] @ str ''information, dis-le clairement.''"

text \<open>The language model is an external collaborator: from the prompt to its text, or an error.\<close>

definition generate_answer :: "(pystr \<Rightarrow> error + pystr) \<Rightarrow> pystr \<Rightarrow> retrieved list \<Rightarrow> error + pystr" where
  "generate_answer llm question context_docs = llm (build_prompt question (build_context context_docs))"

definition chat ::
  "query_fn \<Rightarrow> (pystr \<Rightarrow> error + pystr) \<Rightarrow> pystr \<Rightarrow> error + pystr \<times> (meta_value \<times> pystr) list" where
  "chat query llm question =
     (case search query question 5 of
        Inl e \<Rightarrow> Inl e
      | Inr sources \<Rightarrow>
          (case generate_answer llm question sources of
             Inl e \<Rightarrow> Inl e
           | Inr answer \<Rightarrow> Inr (answer, map (\<lambda>src. (source_name src, content src)) sources)))"


text \<open>
  The context block in the words of the specification: per retrieved chunk a line
  \<open>Source: name\<close>, the name being the \<open>source\<close> metadata or \<open>unknown\<close> when there is none,
  then the chunk's text; a blank line between two entries.
\<close>

definition context_entry :: "retrieved \<Rightarrow> pystr" where
  "context_entry doc =
     str ''Source: ''
     @ (case map_of (metadata doc) (str ''source'') of
          None \<Rightarrow> str ''unknown''
        | Some v \<Rightarrow> format_value v)
     @ [10] @ content doc"

fun spec_context :: "retrieved list \<Rightarrow> pystr" where
  "spec_context [] = []"
| "spec_context [d] = context_entry d"
| "spec_context (d # e # ds) = context_entry d @ [10, 10] @ spec_context (e # ds)"


section \<open>Properties of the string operations\<close>

lemma length_strip_le: "length (strip s) \<le> length s"
proof -
  have "length (strip s) \<le> length (dropWhile isspace s)"
    unfolding strip_def using length_dropWhile_le [of isspace "rev (dropWhile isspace s)"] by simp
  also have "\<dots> \<le> length s" by (rule length_dropWhile_le)
  finally show ?thesis .
qed

lemma length_slice_window:
  assumes "0 \<le> w"
  shows "int (length (slice xs i (i + w))) \<le> w"
proof -
  define n where "n = int (length xs)"
  define lo where "lo = (if i < 0 then max 0 (i + n) else min i n)"
  define hi where "hi = (if i + w < 0 then max 0 (i + w + n) else min (i + w) n)"
  have n0: "0 \<le> n" by (simp add: n_def)
  have b: "0 \<le> lo" "0 \<le> hi" "hi \<le> n" "hi - lo \<le> w"
    using assms n0 by (auto simp: lo_def hi_def min_def max_def)
  have le: "nat hi \<le> length xs"
    using b n_def by linarith
  have "slice xs i (i + w) = drop (nat lo) (take (nat hi) xs)"
    by (simp add: slice_def Let_def lo_def hi_def n_def)
  then have "length (slice xs i (i + w)) = nat hi - nat lo"
    using le by simp
  then show ?thesis
    using b assms by linarith
qed

lemma length_slice_le: "length (slice xs i j) \<le> length xs"
  by (simp add: slice_def Let_def)

lemma slice_prefix: "0 \<le> k \<Longrightarrow> slice xs 0 k = take (nat k) xs"
  by (simp add: slice_def Let_def min_def)

lemma slice_whole: "int (length xs) \<le> n \<Longrightarrow> slice xs 0 n = xs"
  by (cases "n < 0") (auto simp: slice_def Let_def)

lemma slice_nat: "slice xs (int i) (int i + int w) = take w (drop i xs)"
proof -
  have lo: "nat (min (int i) (int (length xs))) = min i (length xs)" by linarith
  have hi: "nat (min (int i + int w) (int (length xs))) = min (i + w) (length xs)" by linarith
  have "slice xs (int i) (int i + int w)
      = drop (min i (length xs)) (take (min (i + w) (length xs)) xs)"
    unfolding slice_def Let_def using lo hi by simp
  also have "\<dots> = take w (drop i xs)"
    by (cases "i \<le> length xs") (simp_all add: min_def take_drop add.commute)
  finally show ?thesis .
qed

lemma slice_window: "slice xs (int i) (int i + 100) = take 100 (drop i xs)"
  using slice_nat [of xs i 100] by simp

lemma rfind_absent: "c \<notin> set s \<Longrightarrow> rfind s c = - 1"
  by (induction s) (auto simp: Let_def)

lemma rfind_less: "rfind s c < int (length s)"
  by (induction s) (auto simp: Let_def)

lemma rfind_last:
  "k < length s \<Longrightarrow> s ! k = c \<Longrightarrow> c \<notin> set (drop (Suc k) s) \<Longrightarrow> rfind s c = int k"
proof (induction s arbitrary: k)
  case Nil
  then show ?case by simp
next
  case (Cons x xs)
  show ?case
  proof (cases k)
    case 0
    with Cons.prems show ?thesis by (simp add: rfind_absent)
  next
    case (Suc j)
    with Cons.prems have "rfind xs c = int j" by (intro Cons.IH) simp_all
    with Suc show ?thesis by simp
  qed
qed


lemma strip_replicate: "\<not> isspace a \<Longrightarrow> strip (replicate m a) = replicate m a"
  by (simp add: strip_def)

lemma str_of_nat_120: "str_of_nat 120 = str ''120''"
  by (simp add: str_of_nat.simps str_def)


section \<open>Properties of the chunker\<close>

lemma chunk_step_length:
  assumes "0 \<le> chunk_size"
  shows "int (length (fst (chunk_step t chunk_size overlap start))) \<le> chunk_size"
proof -
  let ?chunk = "slice t start (start + chunk_size)"
  have w: "int (length ?chunk) \<le> chunk_size"
    using assms by (rule length_slice_window)
  have a: "int (length (strip ?chunk)) \<le> chunk_size"
    using w length_strip_le [of ?chunk] by linarith
  have b: "int (length (strip (slice ?chunk 0 k))) \<le> chunk_size" for k
    using w length_strip_le [of "slice ?chunk 0 k"] length_slice_le [of ?chunk 0 k] by linarith
  show ?thesis
    using a b by (simp add: chunk_step_def Let_def)
qed

text \<open>
  With an overlap of at most half the chunk size every pass moves \<open>start\<close> forward: a
  truncated chunk ends beyond the midpoint, which is at least the overlap.
\<close>

lemma chunk_step_progress:
  assumes "0 < chunk_size" and "overlap \<le> chunk_size div 2"
  shows "start < snd (chunk_step t chunk_size overlap start)"
proof -
  have "overlap < chunk_size" using assms by linarith
  then show ?thesis
    using assms by (auto simp: chunk_step_def Let_def)
qed

lemma split_loop_returns:
  assumes "0 < chunk_size" and "overlap \<le> chunk_size div 2"
  shows "\<exists>r. split_loop t chunk_size overlap start chunks = Some r"
proof (induction "nat (int (length t) - start)" arbitrary: start chunks rule: less_induct)
  case less
  show ?case
  proof (cases "start < int (length t)")
    case False
    then show ?thesis by (subst split_loop.simps) simp
  next
    case True
    obtain chunk next_start where st: "chunk_step t chunk_size overlap start = (chunk, next_start)"
      by (cases "chunk_step t chunk_size overlap start")
    have "start < next_start"
      using chunk_step_progress [OF assms, of start t] st by simp
    then have "nat (int (length t) - next_start) < nat (int (length t) - start)"
      using True by linarith
    then obtain r where "split_loop t chunk_size overlap next_start (chunks @ [chunk]) = Some r"
      using less by blast
    then show ?thesis
      using True st by (subst split_loop.simps) simp
  qed
qed

lemma split_pipeline_total: "split_into_chunks t 3000 300 = Some (pipeline_chunks t)"
proof -
  obtain r where "split_loop t 3000 300 0 [] = Some r"
    using split_loop_returns [of 3000 300 t 0 "[]"] by auto
  then show ?thesis
    by (simp add: pipeline_chunks_def split_into_chunks_def)
qed

text \<open>Whatever the loop returns, no chunk in it is longer than \<open>chunk_size\<close>.\<close>

lemma split_loop_bounded:
  assumes ret: "split_loop t0 chunk_size overlap start0 chunks0 = Some r0"
    and cs: "0 \<le> chunk_size"
    and old: "\<forall>c \<in> set chunks0. int (length c) \<le> chunk_size"
  shows "\<forall>c \<in> set r0. int (length c) \<le> chunk_size"
proof -
  let ?P = "\<lambda>(t::pystr) (n::int) (ov::int) (s::int) chunks r.
      0 \<le> n \<longrightarrow> (\<forall>c \<in> set chunks. int (length c) \<le> n) \<longrightarrow> (\<forall>c \<in> set r. int (length c) \<le> n)"
  have "?P t0 chunk_size overlap start0 chunks0 r0"
  proof (rule split_loop.raw_induct [where P = ?P, OF _ ret])
    fix loop :: "pystr \<Rightarrow> int \<Rightarrow> int \<Rightarrow> int \<Rightarrow> pystr list \<Rightarrow> pystr list option"
    fix t n ov s chunks r
    assume IH: "\<And>t n ov s chunks r. loop t n ov s chunks = Some r \<Longrightarrow> ?P t n ov s chunks r"
    assume eq: "(if s < int (length t)
        then case chunk_step t n ov s of
               (chunk, next_start) \<Rightarrow> loop t n ov next_start (chunks @ [chunk])
        else Some chunks) = Some r"
    show "?P t n ov s chunks r"
    proof (intro impI)
      assume n: "0 \<le> n" and inv: "\<forall>c \<in> set chunks. int (length c) \<le> n"
      show "\<forall>c \<in> set r. int (length c) \<le> n"
      proof (cases "s < int (length t)")
        case False
        with eq inv show ?thesis by simp
      next
        case True
        obtain chunk next_start where st: "chunk_step t n ov s = (chunk, next_start)"
          by (cases "chunk_step t n ov s")
        have "int (length chunk) \<le> n"
          using chunk_step_length [OF n, of t ov s] st by simp
        then have inv': "\<forall>c \<in> set (chunks @ [chunk]). int (length c) \<le> n"
          using inv by simp
        have "loop t n ov next_start (chunks @ [chunk]) = Some r"
          using eq True st by simp
        from IH [OF this] n inv' show ?thesis by simp
      qed
    qed
  qed
  with cs old show ?thesis by simp
qed

text \<open>A text that the first pass takes whole and that ends the loop.\<close>

lemma split_short_text:
  assumes "int (length t) < chunk_size" and "int (length t) \<le> chunk_size - overlap"
  shows "split_into_chunks t chunk_size overlap = Some (if strip t = [] then [] else [strip t])"
proof (cases "t = []")
  case True
  then show ?thesis
    by (simp add: split_into_chunks_def split_loop.simps strip_def)
next
  case False
  have st: "chunk_step t chunk_size overlap 0 = (strip t, chunk_size - overlap)"
    using assms by (simp add: chunk_step_def slice_whole)
  have "split_loop t chunk_size overlap (chunk_size - overlap) [strip t] = Some [strip t]"
    using assms by (subst split_loop.simps) simp
  then have "split_loop t chunk_size overlap 0 [] = Some [strip t]"
    using False st by (subst split_loop.simps) simp
  then show ?thesis
    by (simp add: split_into_chunks_def)
qed

text \<open>
  Under the pipeline's parameters a text of 2701 to 2999 characters gets a second pass,
  which takes what follows index 2700.
\<close>

lemma pipeline_tail_chunk:
  assumes "2700 < length t" and "length t < 3000"
  shows "pipeline_chunks t = filter (\<lambda>c. c \<noteq> []) [strip t, strip (drop 2700 t)]"
proof -
  have s1: "chunk_step t 3000 300 0 = (strip t, 2700)"
    using assms by (simp add: chunk_step_def slice_whole)
  have "slice t 2700 5700 = drop 2700 t"
    using assms by (simp add: slice_def)
  then have s2: "chunk_step t 3000 300 2700 = (strip (drop 2700 t), 5400)"
    using assms by (simp add: chunk_step_def)
  have "split_loop t 3000 300 5400 [strip t, strip (drop 2700 t)]
      = Some [strip t, strip (drop 2700 t)]"
    using assms by (subst split_loop.simps) simp
  then have "split_loop t 3000 300 2700 [strip t] = Some [strip t, strip (drop 2700 t)]"
    using assms s2 by (subst split_loop.simps) simp
  moreover have "t \<noteq> []"
    using assms by auto
  ultimately have "split_loop t 3000 300 0 [] = Some [strip t, strip (drop 2700 t)]"
    using s1 by (subst split_loop.simps) simp
  then show ?thesis
    by (simp add: pipeline_chunks_def split_into_chunks_def)
qed

text \<open>A text of one repeated letter: every pass takes 3000 characters and moves on by 2700.\<close>

lemma chunk_step_replicate:
  assumes "\<not> isspace a" and "a \<noteq> 10"
  shows "chunk_step (replicate n a) 3000 300 (int (2700 * k))
         = (replicate (min 3000 (n - 2700 * k)) a, int (2700 * Suc k))"
proof -
  have sl: "slice (replicate n a) (int (2700 * k)) (int (2700 * k) + 3000)
      = replicate (min 3000 (n - 2700 * k)) a"
    using slice_nat [of "replicate n a" "2700 * k" 3000] by (simp add: min.commute)
  have nl: "rfind (replicate (min 3000 (n - 2700 * k)) a) 10 = - 1"
    using assms(2) by (intro rfind_absent) auto
  have nx: "int (2700 * k) + 3000 - 300 = int (2700 * Suc k)"
    by simp
  show ?thesis
    unfolding chunk_step_def Let_def sl nl strip_replicate [OF assms(1)] nx by simp
qed

lemma split_loop_replicate:
  assumes "\<not> isspace a" and "a \<noteq> 10"
  shows "\<exists>r. split_loop (replicate n a) 3000 300 (int (2700 * k)) chunks = Some (chunks @ r) \<and>
             length r = (n + 2699) div 2700 - k \<and> [] \<notin> set r"
proof (induction "(n + 2699) div 2700 - k" arbitrary: k chunks)
  case 0
  have "(n + 2699) div 2700 * 2700 + (n + 2699) mod 2700 = n + 2699"
    by (rule div_mult_mod_eq)
  moreover have "(n + 2699) mod 2700 < 2700"
    by simp
  ultimately have "n \<le> 2700 * k"
    using 0 by linarith
  then have "split_loop (replicate n a) 3000 300 (int (2700 * k)) chunks = Some chunks"
    by (subst split_loop.simps) simp
  then show ?case
    using 0 by simp
next
  case (Suc m)
  have "(n + 2699) div 2700 * 2700 + (n + 2699) mod 2700 = n + 2699"
    by (rule div_mult_mod_eq)
  then have less: "2700 * k < n"
    using Suc(2) by linarith
  let ?c = "replicate (min 3000 (n - 2700 * k)) a"
  have "m = (n + 2699) div 2700 - Suc k"
    using Suc(2) by simp
  then obtain r where r: "split_loop (replicate n a) 3000 300 (int (2700 * Suc k)) (chunks @ [?c])
        = Some ((chunks @ [?c]) @ r)"
    and len: "length r = (n + 2699) div 2700 - Suc k" and ne: "[] \<notin> set r"
    using Suc(1) [of "Suc k" "chunks @ [?c]"] by blast
  have st: "chunk_step (replicate n a) 3000 300 (int (2700 * k)) = (?c, int (2700 * Suc k))"
    by (rule chunk_step_replicate [OF assms])
  have cond: "int (2700 * k) < int (length (replicate n a))"
    using less by simp
  have "split_loop (replicate n a) 3000 300 (int (2700 * k)) chunks
      = split_loop (replicate n a) 3000 300 (int (2700 * Suc k)) (chunks @ [?c])"
    by (subst split_loop.simps) (simp only: cond if_True st prod.case)
  then have "split_loop (replicate n a) 3000 300 (int (2700 * k)) chunks = Some (chunks @ ?c # r)"
    using r by simp
  moreover have "length (?c # r) = (n + 2699) div 2700 - k"
    using len Suc(2) by simp
  moreover have "[] \<notin> set (?c # r)"
    using ne less by simp
  ultimately show ?case by blast
qed

text \<open>
  The example of the specification: 3299 characters without a newline give the chunks
  \<open>[0:3000)\<close> and \<open>[2700:3299)\<close>.
\<close>

lemma spec_example_3299:
  "split_into_chunks (replicate 3299 97) 3000 300 = Some [replicate 3000 97, replicate 599 97]"
proof -
  have sp: "\<not> isspace 97" by (simp add: isspace_def)
  have nl: "rfind (replicate 3000 97) 10 = - 1"
    by (rule rfind_absent) simp
  have s1: "chunk_step (replicate 3299 97) 3000 300 0 = (replicate 3000 97, 2700)"
    using sp nl by (simp add: chunk_step_def slice_def strip_def)
  have s2: "chunk_step (replicate 3299 97) 3000 300 2700 = (replicate 599 97, 5400)"
    using sp by (simp add: chunk_step_def slice_def strip_def)
  have "split_loop (replicate 3299 97) 3000 300 5400 [replicate 3000 97, replicate 599 97]
        = Some [replicate 3000 97, replicate 599 97]"
    by (subst split_loop.simps) simp
  then have "split_loop (replicate 3299 97) 3000 300 2700 [replicate 3000 97]
        = Some [replicate 3000 97, replicate 599 97]"
    using s2 by (subst split_loop.simps) simp
  then have "split_loop (replicate 3299 97) 3000 300 0 []
        = Some [replicate 3000 97, replicate 599 97]"
    using s1 by (subst split_loop.simps) simp
  then show ?thesis by (simp add: split_into_chunks_def)
qed

text \<open>
  A run that stalls: with \<open>chunk_size = 4\<close> and \<open>overlap = 3\<close> the first chunk of
  \<open>"abc\nabcd"\<close> is cut at the newline at index 3, and \<open>start\<close> is set to \<open>3 - 3 = 0\<close> again.
\<close>

lemma stalled_loop_never_returns:
  assumes ret: "split_loop t0 n0 ov0 s0 chunks0 = Some r0"
  shows "\<not> (t0 = str ''abc\<newline>abcd'' \<and> n0 = 4 \<and> ov0 = 3 \<and> s0 = 0)"
proof (rule split_loop.raw_induct
    [where P = "\<lambda>t n ov s chunks r. \<not> (t = str ''abc\<newline>abcd'' \<and> n = 4 \<and> ov = 3 \<and> s = 0)",
      OF _ ret])
  fix loop :: "pystr \<Rightarrow> int \<Rightarrow> int \<Rightarrow> int \<Rightarrow> pystr list \<Rightarrow> pystr list option"
  fix t n ov s chunks r
  assume IH: "\<And>t n ov s chunks r. loop t n ov s chunks = Some r \<Longrightarrow>
                \<not> (t = str ''abc\<newline>abcd'' \<and> n = 4 \<and> ov = 3 \<and> s = 0)"
  assume eq: "(if s < int (length t)
        then case chunk_step t n ov s of
               (chunk, next_start) \<Rightarrow> loop t n ov next_start (chunks @ [chunk])
        else Some chunks) = Some r"
  show "\<not> (t = str ''abc\<newline>abcd'' \<and> n = 4 \<and> ov = 3 \<and> s = 0)"
  proof
    assume a: "t = str ''abc\<newline>abcd'' \<and> n = 4 \<and> ov = 3 \<and> s = 0"
    have st: "chunk_step (str ''abc\<newline>abcd'') 4 3 0 = (str ''abc'', 0)"
      by (simp add: chunk_step_def slice_def strip_def isspace_def str_def)
    have "loop (str ''abc\<newline>abcd'') 4 3 0 (chunks @ [str ''abc'']) = Some r"
      using eq a st by (simp add: str_def)
    from IH [OF this] show False by simp
  qed
qed


text \<open>
  The bound \<open>overlap \<le> chunk_size // 2\<close> of \<open>split_loop_returns\<close> cannot be relaxed: for
  every larger overlap below \<open>chunk_size\<close>, a text with its first newline at index
  \<open>overlap\<close> stalls the loop.
\<close>

lemma stall_step:
  assumes "chunk_size div 2 < overlap" and "overlap < chunk_size"
  shows "chunk_step (replicate (nat overlap) 97 @ 10 # replicate (nat chunk_size) 97)
           chunk_size overlap 0 = (replicate (nat overlap) 97, 0)"
proof -
  let ?t = "replicate (nat overlap) (97::nat) @ 10 # replicate (nat chunk_size) 97"
  let ?c = "replicate (nat overlap) (97::nat) @ 10 # replicate (nat (chunk_size - overlap - 1)) 97"
  have pos: "0 < chunk_size" "0 \<le> overlap"
    using assms by linarith+
  have len: "int (length ?t) = overlap + 1 + chunk_size"
    using pos by simp
  have "slice ?t 0 chunk_size = take (nat chunk_size) ?t"
    using pos by (simp add: slice_prefix)
  also have "\<dots> = replicate (nat overlap) 97
        @ take (nat chunk_size - nat overlap) (10 # replicate (nat chunk_size) 97)"
    using assms pos by (simp add: min_def)
  also have "nat chunk_size - nat overlap = Suc (nat (chunk_size - overlap - 1))"
    using assms pos by linarith
  also have "replicate (nat overlap) 97
        @ take (Suc (nat (chunk_size - overlap - 1))) (10 # replicate (nat chunk_size) 97) = ?c"
    using assms pos by (simp add: min_def)
  finally have sl: "slice ?t 0 (0 + chunk_size) = ?c"
    by simp
  have nl: "rfind ?c 10 = int (nat overlap)"
    by (rule rfind_last) (simp_all add: nth_append)
  have tk: "slice ?c 0 overlap = replicate (nat overlap) 97"
    using pos by (simp add: slice_prefix)
  have sp: "\<not> isspace 97"
    by (simp add: isspace_def)
  show ?thesis
    unfolding chunk_step_def Let_def sl nl
    using assms pos len tk sp by (simp add: strip_replicate)
qed

lemma overlap_bound_is_tight:
  assumes "chunk_size div 2 < overlap" and "overlap < chunk_size"
  shows "split_into_chunks (replicate (nat overlap) 97 @ 10 # replicate (nat chunk_size) 97)
           chunk_size overlap = None"
proof -
  let ?t = "replicate (nat overlap) (97::nat) @ 10 # replicate (nat chunk_size) 97"
  let ?Q = "\<lambda>(t::pystr) (n::int) (ov::int) (s::int) (chunks::pystr list) (r::pystr list).
      \<not> (t = ?t \<and> n = chunk_size \<and> ov = overlap \<and> s = 0)"
  have never: "?Q t0 n0 ov0 s0 chunks0 r0" if ret: "split_loop t0 n0 ov0 s0 chunks0 = Some r0"
    for t0 n0 ov0 s0 chunks0 r0
  proof (rule split_loop.raw_induct [where P = ?Q, OF _ ret])
    fix loop :: "pystr \<Rightarrow> int \<Rightarrow> int \<Rightarrow> int \<Rightarrow> pystr list \<Rightarrow> pystr list option"
    fix t n ov s chunks r
    assume IH: "\<And>t n ov s chunks r. loop t n ov s chunks = Some r \<Longrightarrow> ?Q t n ov s chunks r"
    assume eq: "(if s < int (length t)
        then case chunk_step t n ov s of
               (chunk, next_start) \<Rightarrow> loop t n ov next_start (chunks @ [chunk])
        else Some chunks) = Some r"
    show "?Q t n ov s chunks r"
    proof
      assume a: "t = ?t \<and> n = chunk_size \<and> ov = overlap \<and> s = 0"
      then have e: "t = ?t" "n = chunk_size" "ov = overlap" "s = 0"
        by blast+
      have len0: "0 < int (length ?t)"
        by simp
      have "loop ?t chunk_size overlap 0 (chunks @ [replicate (nat overlap) 97]) = Some r"
        using eq unfolding e by (simp only: len0 if_True stall_step [OF assms] prod.case)
      from IH [OF this] show False by simp
    qed
  qed
  have "split_loop ?t chunk_size overlap 0 [] = None"
  proof (cases "split_loop ?t chunk_size overlap 0 []")
    case (Some r)
    from never [OF this] show ?thesis by simp
  qed simp
  then show ?thesis by (simp add: split_into_chunks_def)
qed


section \<open>Properties of the ingestion\<close>

lemma map_index_enumerate:
  "map (\<lambda>(i, x). g i) (enumerate k xs) = map g [k..<k + length xs]"
proof (induction xs arbitrary: k)
  case Nil
  show ?case by simp
next
  case (Cons x xs)
  have "[k..<k + length (x # xs)] = k # [Suc k..<Suc k + length xs]"
    by (simp add: upt_conv_Cons del: upt_Suc)
  then show ?case
    using Cons.IH [of "Suc k"] by simp
qed

lemma foldl_bundle_chunk:
  "foldl (bundle_chunk name p n) acc (enumerate k chunks) =
     \<lparr>documents = documents acc @ chunks,
      metadatas = metadatas acc @
        map (\<lambda>(i, chunk). [(str ''source'', MStr name), (str ''original_file'', MStr (basename p)),
                   (str ''chunk_id'', MInt (int i)), (str ''total_chunks'', MInt (int n))])
          (enumerate k chunks),
      ids = ids acc @
        map (\<lambda>(i, chunk). replace name (str ''/'') (str ''_'') @ str ''_'' @ str_of_nat i)
          (enumerate k chunks)\<rparr>"
proof (induction chunks arbitrary: acc k)
  case Nil
  then show ?case by simp
next
  case (Cons c cs)
  show ?case
    by (simp add: Cons.IH) (simp add: bundle_chunk_def)
qed

lemma foldl_single_chunk:
  "foldl (single_chunk p n) acc (enumerate k chunks) =
     \<lparr>documents = documents acc @ chunks,
      metadatas = metadatas acc @
        map (\<lambda>(i, chunk). [(str ''source'', MStr (basename p)),
                   (str ''chunk_id'', MInt (int i)), (str ''total_chunks'', MInt (int n))])
          (enumerate k chunks),
      ids = ids acc @
        map (\<lambda>(i, chunk). replace (basename p) (str ''.'') (str ''_'') @ str ''_'' @ str_of_nat i)
          (enumerate k chunks)\<rparr>"
proof (induction chunks arbitrary: acc k)
  case Nil
  then show ?case by simp
next
  case (Cons c cs)
  show ?case
    by (simp add: Cons.IH) (simp add: single_chunk_def)
qed

lemma awesome_blocks_result:
  "\<exists>all. awesome_blocks p blocks acc = Some all \<and>
     documents all = documents acc @
       concat (map (\<lambda>d. pipeline_chunks (snd d))
         (List.map_filter (\<lambda>(file_idx, file_block). block_entry file_idx file_block) blocks)) \<and>
     ids all = ids acc @
       concat (map document_ids
         (List.map_filter (\<lambda>(file_idx, file_block). block_entry file_idx file_block) blocks))"
proof (induction blocks arbitrary: acc)
  case Nil
  then show ?case by (simp add: List.map_filter_simps)
next
  case (Cons ib blocks)
  let ?f = "\<lambda>(file_idx, file_block). block_entry file_idx file_block"
  obtain i b where ib: "ib = (i, b)" by (cases ib)
  show ?case
  proof (cases "block_entry i b")
    case None
    have "awesome_blocks p (ib # blocks) acc = awesome_blocks p blocks acc"
      using ib None by simp
    moreover have "List.map_filter ?f (ib # blocks) = List.map_filter ?f blocks"
      using ib None by (simp add: List.map_filter_simps)
    ultimately show ?thesis using Cons.IH [of acc] by simp
  next
    case (Some d)
    obtain name body where d: "d = (name, body)" by (cases d)
    let ?acc = "foldl (bundle_chunk name p (length (pipeline_chunks body))) acc
                  (enumerate 0 (pipeline_chunks body))"
    have step: "awesome_blocks p (ib # blocks) acc = awesome_blocks p blocks ?acc"
      using ib Some d by (simp add: split_pipeline_total)
    have mf: "List.map_filter ?f (ib # blocks) = d # List.map_filter ?f blocks"
      using ib Some by (simp add: List.map_filter_simps)
    have acc_docs: "documents ?acc = documents acc @ pipeline_chunks (snd d)"
      using d by (simp add: foldl_bundle_chunk)
    have acc_ids: "ids ?acc = ids acc @ document_ids d"
      using d by (simp add: foldl_bundle_chunk document_ids_def chunk_ids_def map_index_enumerate)
    obtain all where "awesome_blocks p blocks ?acc = Some all"
      and "documents all = documents ?acc @
             concat (map (\<lambda>d. pipeline_chunks (snd d)) (List.map_filter ?f blocks))"
      and "ids all = ids ?acc @ concat (map document_ids (List.map_filter ?f blocks))"
      using Cons.IH [of ?acc] by blast
    then show ?thesis
      unfolding step mf acc_docs acc_ids by simp
  qed
qed

lemma length_document_ids: "length (document_ids d) = length (pipeline_chunks (snd d))"
  by (simp add: document_ids_def chunk_ids_def)

lemma length_concat_same:
  "(\<And>x. length (f x) = length (g x)) \<Longrightarrow> length (concat (map f xs)) = length (concat (map g xs))"
  by (induction xs) simp_all

lemma concat_windows:
  "concat (map (\<lambda>k. take m (drop (k * m) xs)) [0..<j]) = take (j * m) xs"
proof (induction j)
  case 0
  then show ?case by simp
next
  case (Suc j)
  have "take (j * m) xs @ take m (drop (j * m) xs) = take (j * m + m) xs"
    by (simp add: take_add)
  then show ?case using Suc by (simp add: add.commute)
qed

lemma submit_batches_recorded:
  "submit_batches record_add all starts log = Inr (log @ map (batch_at all) starts)"
  by (induction starts arbitrary: log) (simp_all add: record_add_def slice_window batch_at_def)

lemma concat_batches:
  "concat (map (\<lambda>i. take 100 (drop i xs)) (py_range (length xs) 100)) = xs"
proof -
  have "concat (map (\<lambda>i. take 100 (drop i xs)) (py_range (length xs) 100))
      = concat (map (\<lambda>k. take 100 (drop (k * 100) xs)) [0..<(length xs + 99) div 100])"
    by (simp add: py_range_def comp_def add.commute)
  also have "\<dots> = take ((length xs + 99) div 100 * 100) xs"
    by (rule concat_windows)
  also have "\<dots> = xs"
  proof (rule take_all)
    have "(length xs + 99) div 100 * 100 + (length xs + 99) mod 100 = length xs + 99"
      by (rule div_mult_mod_eq)
    moreover have "(length xs + 99) mod 100 < 100"
      by simp
    ultimately show "length xs \<le> (length xs + 99) div 100 * 100"
      by linarith
  qed
  finally show ?thesis .
qed

lemma awesome_blocks_bundle_all:
  "awesome_blocks p (enumerate 0 (str_split raw separator)) empty_batch
     = Some (bundle_all raw p)"
  and documents_bundle_all:
  "documents (bundle_all raw p)
     = concat (map (\<lambda>d. pipeline_chunks (snd d)) (bundle_documents raw))"
  and ids_bundle_all:
  "ids (bundle_all raw p) = concat (map document_ids (bundle_documents raw))"
  using awesome_blocks_result [of p "enumerate 0 (str_split raw separator)" empty_batch]
  by (auto simp: bundle_all_def bundle_documents_def empty_batch_def)

lemma length_ids_bundle_all:
  "length (ids (bundle_all raw p)) = length (documents (bundle_all raw p))"
  unfolding documents_bundle_all ids_bundle_all
  by (rule length_concat_same) (rule length_document_ids)

lemma documents_single_all: "documents (single_all raw p) = pipeline_chunks raw"
  and ids_single_all:
  "ids (single_all raw p)
     = chunk_ids (replace (basename p) (str ''.'') (str ''_'')) (length (pipeline_chunks raw))"
  by (simp_all add: single_all_def foldl_single_chunk empty_batch_def chunk_ids_def
      map_index_enumerate)

lemma py_range_empty: "py_range n 100 = [] \<longleftrightarrow> n = 0"
  by (auto simp: py_range_def)

lemma py_range_less: "i \<in> set (py_range n 100) \<Longrightarrow> i < n"
  by (auto simp: py_range_def)

lemma concat_batches_of:
  "length xs = n \<Longrightarrow> concat (map (\<lambda>i. take 100 (drop i xs)) (py_range n 100)) = xs"
  using concat_batches [of xs] by simp

lemma documents_bundle_batches:
  "concat (map documents (bundle_batches raw p)) = documents (bundle_all raw p)"
  by (simp add: bundle_batches_def comp_def batch_at_def concat_batches_of)

lemma ids_bundle_batches:
  "concat (map ids (bundle_batches raw p)) = ids (bundle_all raw p)"
  by (simp add: bundle_batches_def comp_def batch_at_def concat_batches_of length_ids_bundle_all)

lemma bundle_batches_nonempty: "b \<in> set (bundle_batches raw p) \<Longrightarrow> documents b \<noteq> []"
  by (auto simp: bundle_batches_def batch_at_def dest: py_range_less)

lemma bundle_batches_at_most_100:
  "b \<in> set (bundle_batches raw p) \<Longrightarrow> length (documents b) \<le> 100"
  by (auto simp: bundle_batches_def batch_at_def)

lemma bundle_batches_empty:
  "bundle_batches raw p = [] \<longleftrightarrow> documents (bundle_all raw p) = []"
  by (simp add: bundle_batches_def py_range_empty)

lemma ingest_awesome_unfold:
  "ingest_awesome_format add s raw p =
     Some (if documents (bundle_all raw p) \<noteq> []
           then (case submit_batches add (bundle_all raw p)
                        (py_range (length (documents (bundle_all raw p))) 100) s of
                   Inl e \<Rightarrow> Inl e
                 | Inr s' \<Rightarrow> Inr (length (documents (bundle_all raw p)), s'))
           else Inr (0, s))"
  by (simp add: ingest_awesome_format_def awesome_blocks_bundle_all)

lemma ingest_awesome_recorded:
  "ingest_awesome_format record_add log raw p =
     Some (Inr (length (documents (bundle_all raw p)), log @ bundle_batches raw p))"
  by (simp add: ingest_awesome_unfold submit_batches_recorded bundle_batches_def py_range_empty)

lemma ingest_single_unfold:
  "ingest_single_file add s raw p =
     Some (if pipeline_chunks raw \<noteq> []
           then (case add s (single_all raw p) of
                   Inl e \<Rightarrow> Inl e
                 | Inr s' \<Rightarrow> Inr (length (pipeline_chunks raw), s'))
           else Inr (0, s))"
  by (simp add: ingest_single_file_def split_pipeline_total Let_def single_all_def [symmetric]
      documents_single_all)

lemma ingest_single_recorded:
  "ingest_single_file record_add log raw p =
     Some (Inr (length (pipeline_chunks raw),
                log @ (if pipeline_chunks raw = [] then [] else [single_all raw p])))"
  by (simp add: ingest_single_unfold record_add_def)


text \<open>\<open>ingest_file\<close> in terms of the chunks parsed from the file.\<close>

lemma ingest_file_bundle:
  assumes "contains raw separator"
  shows "ingest_file add s (fs(path \<mapsto> raw)) path =
     Some (if parsed_chunks raw \<noteq> []
           then (case submit_batches add (bundle_all raw path)
                        (py_range (length (parsed_chunks raw)) 100) s of
                   Inl e \<Rightarrow> Inl e
                 | Inr s' \<Rightarrow> Inr (length (parsed_chunks raw), s'))
           else Inr (0, s))"
proof -
  have p: "parsed_chunks raw = documents (bundle_all raw path)"
    using assms by (simp add: parsed_chunks_def documents_bundle_all)
  show ?thesis
    unfolding p using assms by (simp add: ingest_file_def ingest_awesome_unfold)
qed

lemma ingest_file_single:
  assumes "\<not> contains raw separator"
  shows "ingest_file add s (fs(path \<mapsto> raw)) path =
     Some (if parsed_chunks raw \<noteq> []
           then (case add s (single_all raw path) of
                   Inl e \<Rightarrow> Inl e
                 | Inr s' \<Rightarrow> Inr (length (parsed_chunks raw), s'))
           else Inr (0, s))"
proof -
  have p: "parsed_chunks raw = pipeline_chunks raw"
    using assms by (simp add: parsed_chunks_def)
  show ?thesis
    unfolding p using assms by (simp add: ingest_file_def ingest_single_unfold)
qed

lemma ingest_file_count:
  "\<exists>r. ingest_file add s (fs(path \<mapsto> raw)) path = Some r \<and>
       (\<forall>n s'. r = Inr (n, s') \<longrightarrow> n = length (parsed_chunks raw))"
proof (cases "contains raw separator")
  case True
  show ?thesis
    unfolding ingest_file_bundle [OF True] by (auto split: sum.splits)
next
  case False
  show ?thesis
    unfolding ingest_file_single [OF False] by (auto split: sum.splits)
qed

lemma ingest_file_no_chunks:
  "parsed_chunks raw = [] \<Longrightarrow> ingest_file add s (fs(path \<mapsto> raw)) path = Some (Inr (0, s))"
  by (cases "contains raw separator") (simp_all add: ingest_file_bundle ingest_file_single)

lemma ingest_file_recorded:
  "\<exists>bs. ingest_file record_add log (fs(path \<mapsto> raw)) path
          = Some (Inr (length (parsed_chunks raw), log @ bs)) \<and>
        concat (map documents bs) = parsed_chunks raw \<and> [] \<notin> set (map documents bs)"
proof (cases "contains raw separator")
  case True
  let ?bs = "bundle_batches raw path"
  have p: "parsed_chunks raw = documents (bundle_all raw path)"
    using True by (simp add: parsed_chunks_def documents_bundle_all)
  have "ingest_file record_add log (fs(path \<mapsto> raw)) path
      = Some (Inr (length (parsed_chunks raw), log @ ?bs))"
    using True by (simp add: ingest_file_def ingest_awesome_recorded p)
  moreover have "concat (map documents ?bs) = parsed_chunks raw"
    by (simp add: documents_bundle_batches p)
  moreover have "[] \<notin> set (map documents ?bs)"
  proof
    assume "[] \<in> set (map documents ?bs)"
    then obtain b where "b \<in> set ?bs" and "documents b = []" by auto
    then show False using bundle_batches_nonempty by blast
  qed
  ultimately show ?thesis by blast
next
  case False
  let ?bs = "if pipeline_chunks raw = [] then [] else [single_all raw path]"
  have p: "parsed_chunks raw = pipeline_chunks raw"
    using False by (simp add: parsed_chunks_def)
  have "ingest_file record_add log (fs(path \<mapsto> raw)) path
      = Some (Inr (length (parsed_chunks raw), log @ ?bs))"
    using False by (simp add: ingest_file_def ingest_single_recorded p)
  moreover have "concat (map documents ?bs) = parsed_chunks raw"
    by (simp add: documents_single_all p)
  moreover have "[] \<notin> set (map documents ?bs)"
    by (simp add: documents_single_all)
  ultimately show ?thesis by blast
qed

lemma document_ids_fun:
  "document_ids =
     (\<lambda>d. chunk_ids (replace (fst d) (str ''/'') (str ''_'')) (length (pipeline_chunks (snd d))))"
  by (rule ext) (simp add: document_ids_def)


lemma not_contains: "x \<in> set sub \<Longrightarrow> x \<notin> set s \<Longrightarrow> \<not> contains s sub"
proof (induction s)
  case Nil
  then show ?case by auto
next
  case (Cons y ys)
  have "\<not> startswith (y # ys) sub"
  proof
    assume "startswith (y # ys) sub"
    then have "set sub \<subseteq> set (y # ys)"
      unfolding startswith_def by (metis set_take_subset)
    with Cons.prems show False by auto
  qed
  with Cons show ?case by simp
qed

lemma bundle_batches_full:
  assumes "i < length (bundle_batches raw p) - 1"
  shows "length (documents (bundle_batches raw p ! i)) = 100"
proof -
  let ?n = "length (documents (bundle_all raw p))"
  have len: "length (bundle_batches raw p) = (?n + 99) div 100"
    by (simp add: bundle_batches_def py_range_def)
  have "(?n + 99) div 100 * 100 + (?n + 99) mod 100 = ?n + 99"
    by (rule div_mult_mod_eq)
  then have "i * 100 + 100 \<le> ?n"
    using assms len by linarith
  moreover have "bundle_batches raw p ! i = batch_at (bundle_all raw p) (i * 100)"
    using assms len by (simp add: bundle_batches_def py_range_def)
  ultimately show ?thesis
    by (simp add: batch_at_def)
qed

lemma block_entry_None_iff: "block_entry i b = None \<longleftrightarrow> \<not> kept_block b"
  by (auto simp: block_entry_def kept_block_def Let_def)

lemma block_entry_text: "block_entry i b = Some d \<Longrightarrow> snd d = block_text b"
  by (auto simp: block_entry_def block_text_def Let_def split: if_splits)

lemma block_entry_section:
  "kept_block b \<Longrightarrow> \<not> startswith (block_header b) (str ''FILE:'') \<Longrightarrow>
   block_entry i b = Some (str ''section_'' @ str_of_nat i, block_text b)"
  by (auto simp: block_entry_def kept_block_def block_header_def block_text_def Let_def)

lemma map_filter_blocks:
  "map snd (List.map_filter (\<lambda>(i, b). block_entry i b) (enumerate k blocks))
     = map block_text (filter kept_block blocks)"
proof (induction blocks arbitrary: k)
  case Nil
  then show ?case by simp
next
  case (Cons b blocks)
  show ?case
  proof (cases "block_entry k b")
    case None
    then show ?thesis
      using Cons.IH [of "Suc k"] block_entry_None_iff [of k b]
      by simp
  next
    case (Some d)
    then have "kept_block b"
      using block_entry_None_iff [of k b] by auto
    then show ?thesis
      using Some Cons.IH [of "Suc k"] block_entry_text [OF Some]
      by simp
  qed
qed

lemma map_filter_member:
  "x \<in> set xs \<Longrightarrow> f x = Some y \<Longrightarrow> y \<in> set (List.map_filter f xs)"
  by (induction xs) (auto split: option.splits)


text \<open>Where \<open>FILE:\<close> occurs only as the prefix, removing every occurrence removes the prefix.\<close>

lemma replace_absent: "\<not> contains s old \<Longrightarrow> replace s old new = s"
proof (induction s)
  case Nil
  show ?case by (simp add: replace.simps)
next
  case (Cons x xs)
  then have "\<not> startswith (x # xs) old" and "replace xs old new = xs"
    by simp_all
  then show ?case
    by (subst replace.simps) simp
qed

lemma replace_prefix: "old \<noteq> [] \<Longrightarrow> replace (old @ rest) old new = new @ replace rest old new"
  by (subst replace.simps) (simp add: startswith_def)

lemma file_name_is_remainder:
  assumes "\<not> contains rest (str ''FILE:'')"
  shows "strip (replace (str ''FILE:'' @ rest) (str ''FILE:'') []) = strip rest"
proof -
  have "str ''FILE:'' \<noteq> []" by (simp add: str_def)
  then show ?thesis
    using assms by (simp add: replace_prefix replace_absent)
qed


section \<open>Properties of the answer composition\<close>

lemma join_map_context:
  "join [10, 10] (map (\<lambda>doc. str ''Source: '' @ format_value (source_name doc) @ [10] @ content doc) docs)
     = spec_context docs"
proof (induction docs rule: spec_context.induct)
  case 1
  show ?case by simp
next
  case (2 d)
  show ?case
    by (simp add: context_entry_def source_name_def dict_get_def split: option.splits)
next
  case (3 d e ds)
  then show ?case
    by (simp add: context_entry_def source_name_def dict_get_def split: option.splits)
qed

lemma pair_results_zip:
  "length ds \<le> length ms \<Longrightarrow>
   pair_results ds ms = Inr (map2 (\<lambda>d m. \<lparr>content = d, metadata = m\<rparr>) ds ms)"
  by (induction ds ms rule: pair_results.induct) simp_all


section \<open>Claims about the chunker\<close>

subsection \<open>Short texts\<close>

text \<open>
  C1, as the code has it. A text no longer than \<open>chunk_size - overlap\<close> (and shorter than
  \<open>chunk_size\<close>) gives exactly one chunk, the stripped text, or no chunk when nothing is left
  after stripping: the first pass takes the whole text and sets \<open>start\<close> to
  \<open>chunk_size - overlap\<close>, which ends the loop only when the text is no longer than that.
\<close>

theorem short_text_one_chunk:
  assumes "int (length t) < chunk_size" and "int (length t) \<le> chunk_size - overlap"
  shows "split_into_chunks t chunk_size overlap = Some (if strip t = [] then [] else [strip t])"
  using assms by (rule split_short_text)

theorem short_text_one_chunk_witness:
  "int (length (str ''  hi '')) < 10 \<and> int (length (str ''  hi '')) \<le> 10 - 2 \<and>
   split_into_chunks (str ''  hi '') 10 2 = Some [str ''hi'']"
  using short_text_one_chunk [of "str ''  hi ''" 10 2]
  by (simp add: str_def strip_def isspace_def)

text \<open>
  C1 as stated fails under the pipeline's own parameters: a text of 2800 characters is
  shorter than 3000, and the loop runs a second time from \<open>start = 2700\<close>, so its last 100
  characters come back as a second chunk.
\<close>

theorem short_text_two_chunks:
  "int (length (replicate 2800 (97::nat))) < 3000 \<and>
   split_into_chunks (replicate 2800 97) 3000 300 = Some [replicate 2800 97, replicate 100 97]"
proof -
  have sp: "\<not> isspace 97" by (simp add: isspace_def)
  have s1: "chunk_step (replicate 2800 97) 3000 300 0 = (replicate 2800 97, 2700)"
    using sp by (simp add: chunk_step_def slice_def strip_def)
  have s2: "chunk_step (replicate 2800 97) 3000 300 2700 = (replicate 100 97, 5400)"
    using sp by (simp add: chunk_step_def slice_def strip_def)
  have "split_loop (replicate 2800 97) 3000 300 5400 [replicate 2800 97, replicate 100 97]
        = Some [replicate 2800 97, replicate 100 97]"
    by (subst split_loop.simps) simp
  then have "split_loop (replicate 2800 97) 3000 300 2700 [replicate 2800 97]
        = Some [replicate 2800 97, replicate 100 97]"
    using s2 by (subst split_loop.simps) simp
  then have "split_loop (replicate 2800 97) 3000 300 0 []
        = Some [replicate 2800 97, replicate 100 97]"
    using s1 by (subst split_loop.simps) simp
  then show ?thesis by (simp add: split_into_chunks_def)
qed


subsection \<open>Breaking at a newline\<close>

text \<open>
  C4, as the code has it. In a pass of the loop whose candidate
  \<open>text[start : start + chunk_size]\<close> does not reach the end of the text, if the last
  newline of the candidate stands at an index \<open>k\<close> strictly greater than
  \<open>chunk_size // 2\<close>, the chunk the pass appends is the candidate cut before that newline
  and then stripped, and the pass sets \<open>start\<close> to \<open>start + k - overlap\<close>: the end of the
  candidate has become the position of the newline.
\<close>

theorem newline_truncation:
  assumes "0 < chunk_size"
    and "start + chunk_size < int (length t)"
    and "last_newline_at (slice t start (start + chunk_size)) k"
    and "chunk_size div 2 < int k"
  shows "chunk_step t chunk_size overlap start
         = (strip (take k (slice t start (start + chunk_size))), start + int k - overlap)"
proof -
  let ?chunk = "slice t start (start + chunk_size)"
  have "rfind ?chunk 10 = int k"
    using assms(3) by (simp add: last_newline_at_def rfind_last)
  then show ?thesis
    using assms by (simp add: chunk_step_def Let_def slice_prefix)
qed

theorem newline_truncation_witness:
  "(0::int) < 6 \<and> 0 + 6 < int (length (str ''abcd\<newline>fghij'')) \<and>
   last_newline_at (slice (str ''abcd\<newline>fghij'') 0 (0 + 6)) 4 \<and> (6::int) div 2 < int 4 \<and>
   chunk_step (str ''abcd\<newline>fghij'') 6 1 0 = (str ''abcd'', 3)"
  using newline_truncation [of 6 0 "str ''abcd\<newline>fghij''" 4 1]
  by (simp add: last_newline_at_def slice_def strip_def isspace_def str_def)

text \<open>
  C4 as stated fails for a newline exactly at \<open>chunk_size // 2\<close>, which the comparison
  \<open>last_newline > chunk_size // 2\<close> leaves alone: in \<open>"ab\ncdef"\<close> with \<open>chunk_size = 4\<close> the
  candidate \<open>"ab\nc"\<close> does not reach the end, its last newline is at index \<open>2 = 4 // 2\<close>, and
  the pass appends the whole candidate and moves on to \<open>4 - 1 = 3\<close>, not \<open>"ab"\<close> and \<open>2 - 1\<close>.
\<close>

theorem newline_at_midpoint_kept:
  "0 + 4 < int (length (str ''ab\<newline>cdef'')) \<and>
   last_newline_at (slice (str ''ab\<newline>cdef'') 0 (0 + 4)) 2 \<and> (4::int) div 2 \<le> int 2 \<and>
   chunk_step (str ''ab\<newline>cdef'') 4 1 0 = (str ''ab\<newline>c'', 3) \<and>
   chunk_step (str ''ab\<newline>cdef'') 4 1 0 \<noteq> (str ''ab'', 2 - 1)"
  by (simp add: last_newline_at_def chunk_step_def slice_def strip_def isspace_def str_def)


subsection \<open>Termination\<close>

text \<open>
  C5, as the code has it. For \<open>chunk_size > 0\<close> and \<open>0 \<le> overlap \<le> chunk_size // 2\<close> (the
  pipeline's 3000 and 300 among them) \<open>_split_into_chunks\<close> returns on every text.
\<close>

theorem split_terminates:
  assumes "0 < chunk_size" and "0 \<le> overlap" and "overlap \<le> chunk_size div 2"
  shows "\<exists>chunks. split_into_chunks t chunk_size overlap = Some chunks"
proof -
  obtain r where "split_loop t chunk_size overlap 0 [] = Some r"
    using split_loop_returns [OF assms(1) assms(3), of t 0 "[]"] by auto
  then show ?thesis
    by (simp add: split_into_chunks_def)
qed

theorem split_terminates_witness:
  "(0::int) < 4 \<and> (0::int) \<le> 2 \<and> (2::int) \<le> 4 div 2 \<and>
   (\<exists>chunks. split_into_chunks (str ''abc\<newline>abcd'') 4 2 = Some chunks)"
  using split_terminates [of 4 2 "str ''abc\<newline>abcd''"] by simp

text \<open>
  C5 as stated fails: \<open>chunk_size = 4\<close> and \<open>overlap = 3\<close> satisfy \<open>chunk_size > 0\<close> and
  \<open>0 \<le> overlap < chunk_size\<close>, and on \<open>"abc\nabcd"\<close> the call never returns.
\<close>

theorem split_stalls:
  "(0::int) < 4 \<and> (0::int) \<le> 3 \<and> (3::int) < 4 \<and>
   split_into_chunks (str ''abc\<newline>abcd'') 4 3 = None"
proof -
  have "split_loop (str ''abc\<newline>abcd'') 4 3 0 [] = None"
  proof (cases "split_loop (str ''abc\<newline>abcd'') 4 3 0 []")
    case (Some r)
    from stalled_loop_never_returns [OF this] show ?thesis by simp
  qed simp
  then show ?thesis by (simp add: split_into_chunks_def)
qed


subsection \<open>Chunk length\<close>

text \<open>
  C10. For \<open>chunk_size > 0\<close> and \<open>0 \<le> overlap < chunk_size\<close>, every string that
  \<open>_split_into_chunks\<close> returns has at most \<open>chunk_size\<close> characters.
\<close>

theorem chunk_length_bound:
  assumes "0 < chunk_size" and "0 \<le> overlap" and "overlap < chunk_size"
    and "split_into_chunks t chunk_size overlap = Some chunks"
    and "c \<in> set chunks"
  shows "int (length c) \<le> chunk_size"
proof -
  obtain r where r: "split_loop t chunk_size overlap 0 [] = Some r"
    and chunks: "chunks = filter (\<lambda>c. c \<noteq> []) r"
    using assms(4) by (auto simp: split_into_chunks_def)
  have "\<forall>c \<in> set r. int (length c) \<le> chunk_size"
    using split_loop_bounded [OF r] assms(1) by simp
  then show ?thesis
    using assms(5) chunks by simp
qed

theorem chunk_length_bound_witness:
  "(0::int) < 4 \<and> (0::int) \<le> 1 \<and> (1::int) < 4 \<and>
   split_into_chunks (str ''ab\<newline>cdef'') 4 1
     = Some [str ''ab\<newline>c'', str ''cdef'', str ''f''] \<and>
   str ''cdef'' \<in> set [str ''ab\<newline>c'', str ''cdef'', str ''f''] \<and>
   int (length (str ''cdef'')) \<le> 4"
proof -
  have s1: "chunk_step (str ''ab\<newline>cdef'') 4 1 0 = (str ''ab\<newline>c'', 3)"
    by (simp add: chunk_step_def slice_def strip_def isspace_def str_def)
  have s2: "chunk_step (str ''ab\<newline>cdef'') 4 1 3 = (str ''cdef'', 6)"
    by (simp add: chunk_step_def slice_def strip_def isspace_def str_def)
  have s3: "chunk_step (str ''ab\<newline>cdef'') 4 1 6 = (str ''f'', 9)"
    by (simp add: chunk_step_def slice_def strip_def isspace_def str_def)
  have "split_loop (str ''ab\<newline>cdef'') 4 1 9 [str ''ab\<newline>c'', str ''cdef'', str ''f'']
      = Some [str ''ab\<newline>c'', str ''cdef'', str ''f'']"
    by (subst split_loop.simps) (simp add: str_def)
  then have "split_loop (str ''ab\<newline>cdef'') 4 1 6 [str ''ab\<newline>c'', str ''cdef'']
      = Some [str ''ab\<newline>c'', str ''cdef'', str ''f'']"
    using s3 by (subst split_loop.simps) (simp add: str_def)
  then have "split_loop (str ''ab\<newline>cdef'') 4 1 3 [str ''ab\<newline>c'']
      = Some [str ''ab\<newline>c'', str ''cdef'', str ''f'']"
    using s2 by (subst split_loop.simps) (simp add: str_def)
  then have "split_loop (str ''ab\<newline>cdef'') 4 1 0 []
      = Some [str ''ab\<newline>c'', str ''cdef'', str ''f'']"
    using s1 by (subst split_loop.simps) (simp add: str_def)
  then have ev: "split_into_chunks (str ''ab\<newline>cdef'') 4 1
      = Some [str ''ab\<newline>c'', str ''cdef'', str ''f'']"
    by (simp add: split_into_chunks_def str_def)
  show ?thesis
    using ev chunk_length_bound [OF _ _ _ ev, of "str ''cdef''"] by (simp add: str_def)
qed


section \<open>Claims about the ingestion\<close>

subsection \<open>Chunk identifiers\<close>

text \<open>
  C6. Ingesting a file hands the store, whatever it already holds, the same batches; put
  end to end they carry the chunks in order and, beside the \<open>i\<close>-th chunk of a document,
  the identifier \<open>stem_i\<close>: for a bundle the stem is the document's name with every \<open>/\<close>
  replaced by \<open>_\<close>, for a single file it is the base name of the path with every \<open>.\<close>
  replaced by \<open>_\<close>. So a second ingestion of the same content under the same path submits
  the identifiers of the first again.
\<close>

theorem chunk_identifiers:
  "\<exists>n bs. (\<forall>log. ingest_file record_add log (fs(path \<mapsto> raw)) path = Some (Inr (n, log @ bs))) \<and>
     concat (map documents bs) =
       (if contains raw separator
        then concat (map (\<lambda>d. pipeline_chunks (snd d)) (bundle_documents raw))
        else pipeline_chunks raw) \<and>
     concat (map ids bs) =
       (if contains raw separator
        then concat (map (\<lambda>d. chunk_ids (replace (fst d) (str ''/'') (str ''_''))
                                 (length (pipeline_chunks (snd d))))
                      (bundle_documents raw))
        else chunk_ids (replace (basename path) (str ''.'') (str ''_''))
               (length (pipeline_chunks raw)))"
proof (cases "contains raw separator")
  case True
  let ?bs = "bundle_batches raw path"
  have a: "\<forall>log. ingest_file record_add log (fs(path \<mapsto> raw)) path
      = Some (Inr (length (documents (bundle_all raw path)), log @ ?bs))"
    using True by (simp add: ingest_file_def ingest_awesome_recorded)
  have b: "concat (map documents ?bs)
      = concat (map (\<lambda>d. pipeline_chunks (snd d)) (bundle_documents raw))"
    by (simp add: documents_bundle_batches documents_bundle_all)
  have c: "concat (map ids ?bs)
      = concat (map (\<lambda>d. chunk_ids (replace (fst d) (str ''/'') (str ''_''))
                              (length (pipeline_chunks (snd d))))
                 (bundle_documents raw))"
    by (simp add: ids_bundle_batches ids_bundle_all document_ids_fun)
  show ?thesis
    using True a b c by (simp only: if_True) blast
next
  case False
  let ?bs = "if pipeline_chunks raw = [] then [] else [single_all raw path]"
  have a: "\<forall>log. ingest_file record_add log (fs(path \<mapsto> raw)) path
      = Some (Inr (length (pipeline_chunks raw), log @ ?bs))"
    using False by (simp add: ingest_file_def ingest_single_recorded)
  have b: "concat (map documents ?bs) = pipeline_chunks raw"
    by (simp add: documents_single_all)
  have c: "concat (map ids ?bs)
      = chunk_ids (replace (basename path) (str ''.'') (str ''_'')) (length (pipeline_chunks raw))"
    by (simp add: ids_single_all chunk_ids_def)
  show ?thesis
    using False a b c by (simp only: if_False) blast
qed

theorem chunk_identifiers_witness:
  "\<exists>n bs.
     ingest_file record_add []
       (Map.empty(str ''docs.txt'' \<mapsto>
          str ''================\<newline>FILE: src/a.py\<newline>print(1)\<newline>================\<newline>FILE: b.py\<newline>print(2)''))
       (str ''docs.txt'') = Some (Inr (n, [] @ bs)) \<and>
     concat (map documents bs) = [str ''print(1)'', str ''print(2)''] \<and>
     concat (map ids bs) = [str ''src_a.py_0'', str ''b.py_0'']"
proof -
  let ?raw = "str ''================\<newline>FILE: src/a.py\<newline>print(1)\<newline>================\<newline>FILE: b.py\<newline>print(2)''"
  have c: "contains ?raw separator"
    by (simp add: separator_def str_def startswith_def)
  have blocks: "str_split ?raw separator
      = [[], str ''\<newline>FILE: src/a.py\<newline>print(1)\<newline>'', str ''\<newline>FILE: b.py\<newline>print(2)'']"
    by (simp add: str_split_def split_from.simps separator_def str_def startswith_def)
  have e0: "block_entry 0 [] = None"
    by (simp add: block_entry_def strip_def)
  have sa: "strip (str ''\<newline>FILE: src/a.py\<newline>print(1)\<newline>'') = str ''FILE: src/a.py\<newline>print(1)''"
    by (simp add: strip_def str_def isspace_def)
  have la: "str_split (str ''FILE: src/a.py\<newline>print(1)'') [10] = [str ''FILE: src/a.py'', str ''print(1)'']"
    by (simp add: str_split_def split_from.simps str_def startswith_def)
  have na: "strip (replace (strip (str ''FILE: src/a.py'')) (str ''FILE:'') []) = str ''src/a.py''"
    by (simp add: replace.simps strip_def str_def isspace_def startswith_def)
  have wa: "startswith (strip (str ''FILE: src/a.py'')) (str ''FILE:'')"
    by (simp add: strip_def str_def isspace_def startswith_def)
  have e1: "block_entry (Suc 0) (str ''\<newline>FILE: src/a.py\<newline>print(1)\<newline>'')
      = Some (str ''src/a.py'', str ''print(1)'')"
    by (simp add: block_entry_def sa la na wa Let_def) (simp add: str_def)
  have sb: "strip (str ''\<newline>FILE: b.py\<newline>print(2)'') = str ''FILE: b.py\<newline>print(2)''"
    by (simp add: strip_def str_def isspace_def)
  have lb: "str_split (str ''FILE: b.py\<newline>print(2)'') [10] = [str ''FILE: b.py'', str ''print(2)'']"
    by (simp add: str_split_def split_from.simps str_def startswith_def)
  have nb: "strip (replace (strip (str ''FILE: b.py'')) (str ''FILE:'') []) = str ''b.py''"
    by (simp add: replace.simps strip_def str_def isspace_def startswith_def)
  have wb: "startswith (strip (str ''FILE: b.py'')) (str ''FILE:'')"
    by (simp add: strip_def str_def isspace_def startswith_def)
  have e2: "block_entry (Suc (Suc 0)) (str ''\<newline>FILE: b.py\<newline>print(2)'')
      = Some (str ''b.py'', str ''print(2)'')"
    by (simp add: block_entry_def sb lb nb wb Let_def) (simp add: str_def)
  have docs: "bundle_documents ?raw
      = [(str ''src/a.py'', str ''print(1)''), (str ''b.py'', str ''print(2)'')]"
    by (simp add: bundle_documents_def blocks e0 e1 e2)
  have "split_into_chunks (str ''print(1)'') 3000 300 = Some [str ''print(1)'']"
    using split_short_text [of "str ''print(1)''" 3000 300]
    by (simp add: str_def strip_def isspace_def)
  then have p1: "pipeline_chunks (str ''print(1)'') = [str ''print(1)'']"
    by (simp add: pipeline_chunks_def)
  have "split_into_chunks (str ''print(2)'') 3000 300 = Some [str ''print(2)'']"
    using split_short_text [of "str ''print(2)''" 3000 300]
    by (simp add: str_def strip_def isspace_def)
  then have p2: "pipeline_chunks (str ''print(2)'') = [str ''print(2)'']"
    by (simp add: pipeline_chunks_def)
  have i1: "chunk_ids (replace (str ''src/a.py'') (str ''/'') (str ''_'')) (Suc 0) = [str ''src_a.py_0'']"
    by (simp add: chunk_ids_def replace.simps str_of_nat.simps str_def startswith_def)
  have i2: "chunk_ids (replace (str ''b.py'') (str ''/'') (str ''_'')) (Suc 0) = [str ''b.py_0'']"
    by (simp add: chunk_ids_def replace.simps str_of_nat.simps str_def startswith_def)
  obtain n bs where
    a: "\<forall>log. ingest_file record_add log (Map.empty(str ''docs.txt'' \<mapsto> ?raw)) (str ''docs.txt'')
          = Some (Inr (n, log @ bs))" and
    d: "concat (map documents bs) =
       (if contains ?raw separator
        then concat (map (\<lambda>d. pipeline_chunks (snd d)) (bundle_documents ?raw))
        else pipeline_chunks ?raw)" and
    i: "concat (map ids bs) =
       (if contains ?raw separator
        then concat (map (\<lambda>d. chunk_ids (replace (fst d) (str ''/'') (str ''_''))
                                 (length (pipeline_chunks (snd d))))
                      (bundle_documents ?raw))
        else chunk_ids (replace (basename (str ''docs.txt'')) (str ''.'') (str ''_''))
               (length (pipeline_chunks ?raw)))"
    using chunk_identifiers [of Map.empty "str ''docs.txt''" ?raw] by blast
  have a': "ingest_file record_add [] (Map.empty(str ''docs.txt'' \<mapsto> ?raw)) (str ''docs.txt'')
      = Some (Inr (n, [] @ bs))"
    using a by (rule spec)
  have d': "concat (map documents bs) = [str ''print(1)'', str ''print(2)'']"
    unfolding d using c by (simp add: docs p1 p2)
  have i': "concat (map ids bs) = [str ''src_a.py_0'', str ''b.py_0'']"
    unfolding i using c by (simp add: docs p1 p2 i1 i2)
  show ?thesis
    using a' d' i' by (intro exI conjI)
qed


subsection \<open>The count returned\<close>

text \<open>
  C7. \<open>ingest_file\<close> returns the number of chunks parsed from the file: on the recording
  store the call returns that number and the batches it has submitted hold exactly those
  chunks, in order, none of the batches empty; on any store the call returns or raises,
  and a count it returns is that number; and when no chunk is parsed the call returns 0 and
  leaves the store as it was, also a store whose \<open>add\<close> would raise.
\<close>

theorem ingest_file_returns_count:
  "(\<exists>bs. ingest_file record_add log (fs(path \<mapsto> raw)) path
          = Some (Inr (length (parsed_chunks raw), log @ bs)) \<and>
         concat (map documents bs) = parsed_chunks raw \<and> [] \<notin> set (map documents bs)) \<and>
   (\<exists>r. ingest_file add s (fs(path \<mapsto> raw)) path = Some r \<and>
        (\<forall>n s'. r = Inr (n, s') \<longrightarrow> n = length (parsed_chunks raw))) \<and>
   (parsed_chunks raw = [] \<longrightarrow> ingest_file add s (fs(path \<mapsto> raw)) path = Some (Inr (0, s)))"
  using ingest_file_recorded [of log fs path raw] ingest_file_count [of add s fs path raw]
    ingest_file_no_chunks [of raw add s fs path]
  by blast

theorem ingest_file_returns_count_witness:
  "parsed_chunks (str ''   '') = [] \<and>
   ingest_file (\<lambda>s b. Inl StoreError) (0::nat) (Map.empty(str ''a.txt'' \<mapsto> str ''   ''))
     (str ''a.txt'') = Some (Inr (0, 0)) \<and>
   parsed_chunks (str '' hello '') = [str ''hello''] \<and>
   (\<exists>bs. ingest_file record_add [] (Map.empty(str ''b.txt'' \<mapsto> str '' hello ''))
           (str ''b.txt'') = Some (Inr (1, bs)) \<and>
         concat (map documents bs) = [str ''hello''])"
proof -
  have sep0: "\<not> contains (str ''   '') separator"
    by (simp add: separator_def str_def startswith_def)
  have "split_into_chunks (str ''   '') 3000 300 = Some []"
    using split_short_text [of "str ''   ''" 3000 300]
    by (simp add: str_def strip_def isspace_def)
  then have p0: "parsed_chunks (str ''   '') = []"
    using sep0 by (simp add: parsed_chunks_def pipeline_chunks_def)
  have sep1: "\<not> contains (str '' hello '') separator"
    by (simp add: separator_def str_def startswith_def)
  have "split_into_chunks (str '' hello '') 3000 300 = Some [str ''hello'']"
    using split_short_text [of "str '' hello ''" 3000 300]
    by (simp add: str_def strip_def isspace_def)
  then have p1: "parsed_chunks (str '' hello '') = [str ''hello'']"
    using sep1 by (simp add: parsed_chunks_def pipeline_chunks_def)
  have a: "ingest_file (\<lambda>s b. Inl StoreError) (0::nat) (Map.empty(str ''a.txt'' \<mapsto> str ''   ''))
     (str ''a.txt'') = Some (Inr (0, 0))"
    using ingest_file_returns_count
      [of "[]" Map.empty "str ''a.txt''" "str ''   ''" "\<lambda>s b. Inl StoreError" "0::nat"] p0
    by blast
  obtain bs where
    "ingest_file record_add [] (Map.empty(str ''b.txt'' \<mapsto> str '' hello '')) (str ''b.txt'')
       = Some (Inr (length (parsed_chunks (str '' hello '')), [] @ bs))"
    and "concat (map documents bs) = parsed_chunks (str '' hello '')"
    using ingest_file_returns_count
      [of "[]" Map.empty "str ''b.txt''" "str '' hello ''" record_add "[]"]
    by blast
  then have b: "\<exists>bs. ingest_file record_add [] (Map.empty(str ''b.txt'' \<mapsto> str '' hello ''))
           (str ''b.txt'') = Some (Inr (1, bs)) \<and>
         concat (map documents bs) = [str ''hello'']"
    unfolding p1 by auto
  show ?thesis
    using p0 p1 a b by (intro conjI)
qed


subsection \<open>Batches\<close>

text \<open>
  C3 does not hold for a single file. The bundle path slices its chunks into batches of at
  most 100 (\<open>bundle_batches_at_most_100\<close>, every batch but the last holding exactly 100 by
  \<open>bundle_batches_full\<close>), but \<open>_ingest_single_file\<close> hands all its chunks to the store in
  one \<open>add\<close>: a file of 270001 letters \<open>a\<close> is cut into 101 chunks, and the store receives
  one batch of 101.
\<close>

theorem single_file_101_chunks_one_add:
  "\<exists>b. ingest_file record_add [] (Map.empty(str ''big.txt'' \<mapsto> replicate 270001 97)) (str ''big.txt'')
          = Some (Inr (101, [b])) \<and>
        length (documents b) = 101 \<and> length (ids b) = 101"
proof -
  let ?raw = "replicate 270001 (97::nat)"
  have sp: "\<not> isspace 97" "(97::nat) \<noteq> 10" by (simp_all add: isspace_def)
  obtain r where r: "split_loop ?raw 3000 300 (int (2700 * 0)) [] = Some ([] @ r)"
    and len: "length r = (270001 + 2699) div 2700 - 0" and ne: "[] \<notin> set r"
    using split_loop_replicate [OF sp, of 270001 0 "[]"] by blast
  have "filter (\<lambda>c. c \<noteq> []) r = r"
    using ne by (simp add: filter_id_conv) metis
  then have "split_into_chunks ?raw 3000 300 = Some r"
    using r by (simp add: split_into_chunks_def)
  then have chunks: "pipeline_chunks ?raw = r"
    by (simp add: pipeline_chunks_def)
  have n: "length (pipeline_chunks ?raw) = 101"
    using chunks len by simp
  have sep: "\<not> contains ?raw separator"
    by (rule not_contains [of 61]) (simp_all add: separator_def str_def)
  have "ingest_file record_add [] (Map.empty(str ''big.txt'' \<mapsto> ?raw)) (str ''big.txt'')
      = Some (Inr (101, [single_all ?raw (str ''big.txt'')]))"
    using sep n by (auto simp: ingest_file_def ingest_single_recorded)
  moreover have "length (documents (single_all ?raw (str ''big.txt''))) = 101"
    using n by (simp add: documents_single_all)
  moreover have "length (ids (single_all ?raw (str ''big.txt''))) = 101"
    using n by (simp add: ids_single_all chunk_ids_def)
  ultimately show ?thesis by blast
qed


subsection \<open>The documents of a bundle\<close>

text \<open>
  C2, as the code has it. The logical documents of a bundle are, in order, those of the
  blocks of the raw split that are kept: the blocks that are non-empty after trimming and
  then have at least two lines. A kept block whose first line does not start with
  \<open>FILE:\<close> is named \<open>section_i\<close>, \<open>i\<close> its zero-based position in the raw split, the
  skipped blocks counted.
\<close>

theorem bundle_documents_of_kept_blocks:
  "map snd (bundle_documents raw) = map block_text (filter kept_block (str_split raw separator)) \<and>
   (\<forall>i b. i < length (str_split raw separator) \<and> b = str_split raw separator ! i \<and>
          kept_block b \<and> \<not> startswith (block_header b) (str ''FILE:'') \<longrightarrow>
          (str ''section_'' @ str_of_nat i, block_text b) \<in> set (bundle_documents raw))"
proof (intro conjI allI impI)
  show "map snd (bundle_documents raw)
      = map block_text (filter kept_block (str_split raw separator))"
    by (simp add: bundle_documents_def map_filter_blocks)
next
  fix i b
  assume a: "i < length (str_split raw separator) \<and> b = str_split raw separator ! i \<and>
          kept_block b \<and> \<not> startswith (block_header b) (str ''FILE:'')"
  then have "(i, b) \<in> set (enumerate 0 (str_split raw separator))"
    by (simp add: in_set_enumerate_eq)
  moreover have "block_entry i b = Some (str ''section_'' @ str_of_nat i, block_text b)"
    using a by (intro block_entry_section) blast+
  then have "(case (i, b) of (i, b) \<Rightarrow> block_entry i b)
      = Some (str ''section_'' @ str_of_nat i, block_text b)"
    by simp
  ultimately show "(str ''section_'' @ str_of_nat i, block_text b) \<in> set (bundle_documents raw)"
    unfolding bundle_documents_def by (rule map_filter_member)
qed

theorem bundle_documents_of_kept_blocks_witness:
  "0 < length (str_split (str ''intro\<newline>more================FILE: a.py\<newline>print(1)'') separator) \<and>
   str ''intro\<newline>more''
     = str_split (str ''intro\<newline>more================FILE: a.py\<newline>print(1)'') separator ! 0 \<and>
   kept_block (str ''intro\<newline>more'') \<and>
   \<not> startswith (block_header (str ''intro\<newline>more'')) (str ''FILE:'') \<and>
   (str ''section_'' @ str_of_nat 0, block_text (str ''intro\<newline>more''))
     \<in> set (bundle_documents (str ''intro\<newline>more================FILE: a.py\<newline>print(1)'')) \<and>
   str ''section_'' @ str_of_nat 0 = str ''section_0'' \<and>
   block_text (str ''intro\<newline>more'') = str ''more''"
proof -
  let ?raw = "str ''intro\<newline>more================FILE: a.py\<newline>print(1)''"
  have blocks: "str_split ?raw separator = [str ''intro\<newline>more'', str ''FILE: a.py\<newline>print(1)'']"
    by (simp add: str_split_def split_from.simps separator_def str_def startswith_def)
  have lines: "str_split (strip (str ''intro\<newline>more'')) [10] = [str ''intro'', str ''more'']"
    by (simp add: str_split_def split_from.simps str_def startswith_def strip_def isspace_def)
  have kept: "kept_block (str ''intro\<newline>more'')"
    using lines by (simp add: kept_block_def) (simp add: strip_def str_def isspace_def)
  have hdr: "\<not> startswith (block_header (str ''intro\<newline>more'')) (str ''FILE:'')"
    using lines by (simp add: block_header_def) (simp add: startswith_def strip_def str_def isspace_def)
  have body: "block_text (str ''intro\<newline>more'') = str ''more''"
    using lines by (simp add: block_text_def)
  have name: "str ''section_'' @ str_of_nat 0 = str ''section_0''"
    by (simp add: str_of_nat.simps str_def)
  have "0 < length (str_split ?raw separator) \<and>
        str ''intro\<newline>more'' = str_split ?raw separator ! 0 \<and>
        kept_block (str ''intro\<newline>more'') \<and>
        \<not> startswith (block_header (str ''intro\<newline>more'')) (str ''FILE:'') \<longrightarrow>
        (str ''section_'' @ str_of_nat 0, block_text (str ''intro\<newline>more''))
          \<in> set (bundle_documents ?raw)"
    using bundle_documents_of_kept_blocks [of ?raw] by blast
  then have "(str ''section_'' @ str_of_nat 0, block_text (str ''intro\<newline>more''))
      \<in> set (bundle_documents ?raw)"
    using blocks kept hdr by simp
  then show ?thesis
    using blocks kept hdr body name by simp
qed

text \<open>
  C2 as stated fails for a block of one line, which \<open>if len(lines) < 2: continue\<close> skips:
  \<open>"intro================FILE: a.py\nprint(1)"\<close> splits into two blocks, both non-empty
  after trimming, and gives the single document \<open>a.py\<close>.
\<close>

theorem one_line_block_dropped:
  "contains (str ''intro================FILE: a.py\<newline>print(1)'') separator \<and>
   str_split (str ''intro================FILE: a.py\<newline>print(1)'') separator
     = [str ''intro'', str ''FILE: a.py\<newline>print(1)''] \<and>
   strip (str ''intro'') \<noteq> [] \<and> strip (str ''FILE: a.py\<newline>print(1)'') \<noteq> [] \<and>
   bundle_documents (str ''intro================FILE: a.py\<newline>print(1)'')
     = [(str ''a.py'', str ''print(1)'')]"
proof -
  let ?raw = "str ''intro================FILE: a.py\<newline>print(1)''"
  have c: "contains ?raw separator"
    by (simp add: separator_def str_def startswith_def)
  have blocks: "str_split ?raw separator = [str ''intro'', str ''FILE: a.py\<newline>print(1)'']"
    by (simp add: str_split_def split_from.simps separator_def str_def startswith_def)
  have s1: "strip (str ''intro'') = str ''intro''"
    by (simp add: strip_def str_def isspace_def)
  have s2: "strip (str ''FILE: a.py\<newline>print(1)'') = str ''FILE: a.py\<newline>print(1)''"
    by (simp add: strip_def str_def isspace_def)
  have l1: "str_split (str ''intro'') [10] = [str ''intro'']"
    by (simp add: str_split_def split_from.simps str_def startswith_def)
  have l2: "str_split (str ''FILE: a.py\<newline>print(1)'') [10] = [str ''FILE: a.py'', str ''print(1)'']"
    by (simp add: str_split_def split_from.simps str_def startswith_def)
  have e1: "block_entry 0 (str ''intro'') = None"
    by (simp add: block_entry_def s1 l1)
  have nm: "strip (replace (strip (str ''FILE: a.py'')) (str ''FILE:'') []) = str ''a.py''"
    by (simp add: replace.simps strip_def str_def isspace_def startswith_def)
  have sw: "startswith (strip (str ''FILE: a.py'')) (str ''FILE:'')"
    by (simp add: strip_def str_def isspace_def startswith_def)
  have e2: "block_entry (Suc 0) (str ''FILE: a.py\<newline>print(1)'') = Some (str ''a.py'', str ''print(1)'')"
    by (simp add: block_entry_def s2 l2 nm sw Let_def) (simp add: str_def)
  have "bundle_documents ?raw = [(str ''a.py'', str ''print(1)'')]"
    by (simp add: bundle_documents_def blocks e1 e2)
  then show ?thesis
    using c blocks s1 s2 by (simp add: str_def)
qed

text \<open>
  C8 does not hold when \<open>FILE:\<close> occurs again in the header: the name is computed with
  \<open>replace("FILE:", "")\<close>, which removes every occurrence and not the prefix alone. The
  header \<open>FILE: a/FILE:b.py\<close> starts with the prefix, what follows the prefix is
  \<open>a/FILE:b.py\<close> once trimmed, and the document is named \<open>a/b.py\<close>. (Where the prefix is
  the only occurrence the name is the remainder: \<open>file_name_is_remainder\<close>.)
\<close>

theorem file_prefix_removed_everywhere:
  "startswith (str ''FILE: a/FILE:b.py'') (str ''FILE:'') \<and>
   strip (drop (length (str ''FILE:'')) (str ''FILE: a/FILE:b.py'')) = str ''a/FILE:b.py'' \<and>
   bundle_documents (str ''================\<newline>FILE: a/FILE:b.py\<newline>print(1)'')
     = [(str ''a/b.py'', str ''print(1)'')]"
proof -
  let ?raw = "str ''================\<newline>FILE: a/FILE:b.py\<newline>print(1)''"
  have blocks: "str_split ?raw separator = [[], str ''\<newline>FILE: a/FILE:b.py\<newline>print(1)'']"
    by (simp add: str_split_def split_from.simps separator_def str_def startswith_def)
  have s0: "strip [] = []"
    by (simp add: strip_def)
  have s2: "strip (str ''\<newline>FILE: a/FILE:b.py\<newline>print(1)'') = str ''FILE: a/FILE:b.py\<newline>print(1)''"
    by (simp add: strip_def str_def isspace_def)
  have l2: "str_split (str ''FILE: a/FILE:b.py\<newline>print(1)'') [10]
      = [str ''FILE: a/FILE:b.py'', str ''print(1)'']"
    by (simp add: str_split_def split_from.simps str_def startswith_def)
  have e1: "block_entry 0 [] = None"
    by (simp add: block_entry_def s0)
  have hd: "strip (str ''FILE: a/FILE:b.py'') = str ''FILE: a/FILE:b.py''"
    by (simp add: strip_def str_def isspace_def)
  have nm: "strip (replace (str ''FILE: a/FILE:b.py'') (str ''FILE:'') []) = str ''a/b.py''"
    by (simp add: replace.simps strip_def str_def isspace_def startswith_def)
  have sw: "startswith (str ''FILE: a/FILE:b.py'') (str ''FILE:'')"
    by (simp add: str_def startswith_def)
  have e2: "block_entry (Suc 0) (str ''\<newline>FILE: a/FILE:b.py\<newline>print(1)'')
      = Some (str ''a/b.py'', str ''print(1)'')"
    by (simp add: block_entry_def s2 l2 hd nm sw Let_def) (simp add: str_def)
  have docs: "bundle_documents ?raw = [(str ''a/b.py'', str ''print(1)'')]"
    by (simp add: bundle_documents_def blocks e1 e2)
  have rest: "strip (drop (length (str ''FILE:'')) (str ''FILE: a/FILE:b.py'')) = str ''a/FILE:b.py''"
    by (simp add: strip_def str_def isspace_def)
  show ?thesis
    using sw rest docs by simp
qed


section \<open>Claims about the answer composition\<close>

text \<open>
  C9. \<open>generate_answer\<close> sends the model the prompt built around the context block of the
  specification, the entries in the order of the documents it is given; and when the store
  answers the query with documents \<open>ds\<close> and their metadata \<open>ms\<close>, \<open>chat\<close> returns the
  model's text with one (name, content) pair per document, in the store's order.
\<close>

theorem context_and_sources_in_order:
  "generate_answer llm question docs = llm (build_prompt question (spec_context docs)) \<and>
   (query question 5 = Inr (ds, ms) \<and> length ds \<le> length ms \<and>
    llm (build_prompt question
           (spec_context (map2 (\<lambda>d m. \<lparr>content = d, metadata = m\<rparr>) ds ms))) = Inr answer
    \<longrightarrow> chat query llm question
          = Inr (answer, map2 (\<lambda>d m. (dict_get m (str ''source'') (MStr (str ''unknown'')), d)) ds ms))"
proof (intro conjI impI)
  show g: "generate_answer llm question docs = llm (build_prompt question (spec_context docs))" for docs
    by (simp only: generate_answer_def build_context_def join_map_context)
  assume a: "query question 5 = Inr (ds, ms) \<and> length ds \<le> length ms \<and>
    llm (build_prompt question
           (spec_context (map2 (\<lambda>d m. \<lparr>content = d, metadata = m\<rparr>) ds ms))) = Inr answer"
  let ?docs = "map2 (\<lambda>d m. \<lparr>content = d, metadata = m\<rparr>) ds ms"
  have s: "search query question 5 = Inr ?docs"
    using a by (simp add: search_def pair_results_zip)
  have "map (\<lambda>src. (source_name src, content src)) ?docs
      = map2 (\<lambda>d m. (dict_get m (str ''source'') (MStr (str ''unknown'')), d)) ds ms"
    by (simp add: source_name_def case_prod_unfold)
  then show "chat query llm question
      = Inr (answer, map2 (\<lambda>d m. (dict_get m (str ''source'') (MStr (str ''unknown'')), d)) ds ms)"
    using a s g [of ?docs] by (simp add: chat_def)
qed

theorem context_and_sources_in_order_witness:
  "spec_context
     [\<lparr>content = str ''print(1)'', metadata = [(str ''source'', MStr (str ''a.py''))]\<rparr>,
      \<lparr>content = str ''hello'', metadata = []\<rparr>]
     = str ''Source: a.py\<newline>print(1)\<newline>\<newline>Source: unknown\<newline>hello'' \<and>
   chat (\<lambda>q n. Inr ([str ''print(1)'', str ''hello''], [[(str ''source'', MStr (str ''a.py''))], []]))
        (\<lambda>prompt. Inr (str ''ok'')) (str ''q'')
     = Inr (str ''ok'', [(MStr (str ''a.py''), str ''print(1)''), (MStr (str ''unknown''), str ''hello'')])"
proof -
  have ctx: "spec_context
     [\<lparr>content = str ''print(1)'', metadata = [(str ''source'', MStr (str ''a.py''))]\<rparr>,
      \<lparr>content = str ''hello'', metadata = []\<rparr>]
     = str ''Source: a.py\<newline>print(1)\<newline>\<newline>Source: unknown\<newline>hello''"
    by (simp add: context_entry_def str_def)
  show ?thesis
    using ctx context_and_sources_in_order
      [of "\<lambda>prompt. Inr (str ''ok'')" "str ''q''" "[]"
          "\<lambda>q n. Inr ([str ''print(1)'', str ''hello''], [[(str ''source'', MStr (str ''a.py''))], []])"
          "[str ''print(1)'', str ''hello'']" "[[(str ''source'', MStr (str ''a.py''))], []]"
          "str ''ok''"]
    by (simp add: dict_get_def str_def)
qed

end
